theory Spec2Isabelle
  imports Complex_Main
begin

section \<open>The document model the Toolbar works on\<close>

text \<open>
  The overflow logic of \<^verbatim>\<open>Toolbar.tsx\<close> reads and writes DOM elements. An element
  is modelled by exactly the parts of it the component touches: four inline style
  properties, its attributes, the rectangle \<^verbatim>\<open>getBoundingClientRect()\<close> reports,
  its computed margins, its children and its scroll position. Pixel measures are \<open>real\<close>:
  the component only compares, adds and subtracts them. The rectangles and margins are
  those the browser reports after the scroll reset of a pass; hiding or showing an element
  does not change them (\<^verbatim>\<open>visibility: hidden\<close> keeps the layout).

  Elements live in a store indexed by addresses, so that the identity tests of the source
  (\<^verbatim>\<open>$item === $overflowItem\<close>, \<^verbatim>\<open>activeElement === el\<close>) are
  tests on addresses and a write through one reference is seen through every other.
\<close>

type_synonym addr = nat

record ClientRect =
  left :: real
  right :: real
  top_edge :: real
  width :: real

text \<open>
  The value of the template literal \<^verbatim>\<open>`${v}px`\<close> is kept as \<open>Px v\<close>.
\<close>

datatype css_length = Px real

record element =
  visibility :: string             \<comment> \<open>\<^verbatim>\<open>el.style.visibility\<close>; the empty string when unset\<close>
  position :: string               \<comment> \<open>\<^verbatim>\<open>el.style.position\<close>\<close>
  style_left :: "css_length option"   \<comment> \<open>\<^verbatim>\<open>el.style.left\<close>\<close>
  style_right :: "css_length option"  \<comment> \<open>\<^verbatim>\<open>el.style.right\<close>\<close>
  attributes :: "string \<rightharpoonup> string"
  boundingClientRect :: ClientRect
  marginLeft :: "real option"      \<comment> \<open>\<^verbatim>\<open>parseFloat(getComputedStyle(el).marginLeft)\<close>, \<open>None\<close> for NaN\<close>
  marginRight :: "real option"     \<comment> \<open>\<^verbatim>\<open>parseFloat(getComputedStyle(el).marginRight)\<close>, \<open>None\<close> for NaN\<close>
  children :: "addr list"          \<comment> \<open>\<^verbatim>\<open>el.children\<close>, in document order\<close>
  descendants :: "addr list"       \<comment> \<open>every element below \<open>el\<close>, as \<^verbatim>\<open>el.contains\<close> sees them\<close>
  scroll :: "real \<times> real"           \<comment> \<open>the coordinates of the last \<^verbatim>\<open>scrollTo\<close>\<close>

text \<open>
  The state of one Toolbar instance: the store, the four element references, the focused
  element of the document (\<^verbatim>\<open>context.target.activeElement\<close>), the reference cell
  \<^verbatim>\<open>lastVisibleItemIndex\<close> (\<open>None\<close> while it is \<^verbatim>\<open>undefined\<close>), and the arguments of
  the calls made to \<^verbatim>\<open>props.onOverflow\<close> so far, oldest first (\<open>None\<close> stands for NaN,
  the value of \<^verbatim>\<open>undefined + 1\<close>).
\<close>

record toolbar =
  heap :: "addr \<Rightarrow> element"
  overflowContainerRef :: "addr option"
  overflowItemRef :: "addr option"
  offsetMeasureRef :: "addr option"
  containerRef :: "addr option"
  activeElement :: "addr option"
  lastVisibleItemIndex :: "int option"
  onOverflowCalls :: "int option list"

record PositionOffset =
  vertical :: real
  horizontal :: real

record ProviderContextPrepared =
  rtl :: bool

datatype ToolbarItemShorthandKind = item | divider | group | toggle | custom

text \<open>
  The props the overflow logic reads. \<open>onOverflow\<close> tells whether the caller passed a
  handler: \<^verbatim>\<open>_.invoke\<close> calls it only then.
\<close>

record ToolbarProps =
  items :: "ToolbarItemShorthandKind list"
  overflowOpen :: bool
  onOverflow :: bool

definition WAS_FOCUSABLE_ATTRIBUTE :: string where
  "WAS_FOCUSABLE_ATTRIBUTE = ''data-was-focusable''"

text \<open>
  Modelled from the spec: the "currently focusable" marker. The constant is imported from
  the package \<^verbatim>\<open>@fluentui/accessibility\<close>, whose declaration is not among the sources;
  the value is the attribute name that package uses. Only its being different from
  \<open>WAS_FOCUSABLE_ATTRIBUTE\<close> matters below.
\<close>

definition IS_FOCUSABLE_ATTRIBUTE :: string where
  "IS_FOCUSABLE_ATTRIBUTE = ''data-is-focusable''"

subsection \<open>DOM primitives\<close>

definition getAttribute :: "element \<Rightarrow> string \<Rightarrow> string option" where
  "getAttribute el name = attributes el name"

definition setAttribute :: "string \<Rightarrow> string \<Rightarrow> element \<Rightarrow> element" where
  "setAttribute name v el = el\<lparr>attributes := (attributes el)(name \<mapsto> v)\<rparr>"

definition removeAttribute :: "string \<Rightarrow> element \<Rightarrow> element" where
  "removeAttribute name el = el\<lparr>attributes := (attributes el)(name := None)\<rparr>"

text \<open>
  \<^verbatim>\<open>getAttribute\<close> returns \<^verbatim>\<open>null\<close> (\<open>None\<close>) for an absent attribute. In
  \<^verbatim>\<open>if (wasFocusable)\<close> the value counts as true when the attribute is present and its
  value is not the empty string.
\<close>

text \<open>\<^verbatim>\<open>el.contains(x)\<close>: false for \<^verbatim>\<open>null\<close>, true for \<open>el\<close> itself.\<close>

definition contains :: "toolbar \<Rightarrow> addr \<Rightarrow> addr option \<Rightarrow> bool" where
  "contains s el x =
     (case x of None \<Rightarrow> False | Some a \<Rightarrow> a = el \<or> List.member (descendants (heap s el)) a)"

definition update_el :: "addr \<Rightarrow> (element \<Rightarrow> element) \<Rightarrow> toolbar \<Rightarrow> toolbar" where
  "update_el a f s = s\<lparr>heap := (heap s)(a := f (heap s a))\<rparr>"

text \<open>\<^verbatim>\<open>el.focus()\<close> makes the element the focused one.\<close>

definition focus :: "addr \<Rightarrow> toolbar \<Rightarrow> toolbar" where
  "focus a s = s\<lparr>activeElement := Some a\<rparr>"

section \<open>The visibility toggler\<close>

text \<open>
  \<^verbatim>\<open>getFirstFocusable\<close> comes from \<^verbatim>\<open>@fluentui/react-bindings\<close> and is not among the
  sources. \<open>hide\<close> takes it as the parameter \<open>gff\<close>: given the state at the time of the
  call it returns the element found below \<^verbatim>\<open>containerRef.current\<close>, or \<open>None\<close>.
\<close>

definition hide :: "(toolbar \<Rightarrow> addr option) \<Rightarrow> addr \<Rightarrow> toolbar \<Rightarrow> toolbar" where
  "hide gff el s =
     (if visibility (heap s el) = ''hidden'' then s
      else
        let s1 =
              (if activeElement s = Some el \<or> contains s el (activeElement s) then
                 (case containerRef s of
                    None \<Rightarrow> s
                  | Some c \<Rightarrow>
                      (case gff s of
                         None \<Rightarrow> s
                       | Some firstFocusableItem \<Rightarrow> focus firstFocusableItem s))
               else s);
            s2 = update_el el (\<lambda>e. e\<lparr>visibility := ''hidden''\<rparr>) s1;
            wasFocusable = getAttribute (heap s2 el) IS_FOCUSABLE_ATTRIBUTE;
            s3 = (case wasFocusable of
                    None \<Rightarrow> s2
                  | Some w \<Rightarrow>
                      if w \<noteq> [] then update_el el (setAttribute WAS_FOCUSABLE_ATTRIBUTE w) s2
                      else s2)
        in update_el el (setAttribute IS_FOCUSABLE_ATTRIBUTE ''false'') s3)"

text \<open>\<open>show\<close> of the source; the name is a keyword here. It returns its result and the state.\<close>

definition show_el :: "addr \<Rightarrow> toolbar \<Rightarrow> bool \<times> toolbar" where
  "show_el el s =
     (if visibility (heap s el) \<noteq> ''hidden'' then (False, s)
      else
        let s1 = update_el el (\<lambda>e. e\<lparr>visibility := ''''\<rparr>) s;
            wasFocusable = getAttribute (heap s1 el) WAS_FOCUSABLE_ATTRIBUTE;
            s2 = (case wasFocusable of
                    None \<Rightarrow> update_el el (removeAttribute IS_FOCUSABLE_ATTRIBUTE) s1
                  | Some w \<Rightarrow>
                      if w \<noteq> [] then
                        update_el el (removeAttribute WAS_FOCUSABLE_ATTRIBUTE)
                          (update_el el (setAttribute IS_FOCUSABLE_ATTRIBUTE w) s1)
                      else update_el el (removeAttribute IS_FOCUSABLE_ATTRIBUTE) s1)
        in (True, s2))"

section \<open>The geometric tests\<close>

text \<open>Checks if the item overflows the container.\<close>

definition isItemOverflowing :: "ClientRect \<Rightarrow> ClientRect \<Rightarrow> bool" where
  "isItemOverflowing itemBoundingRect containerBoundingRect =
     (right itemBoundingRect > right containerBoundingRect
      \<or> left itemBoundingRect < left containerBoundingRect)"

text \<open>\<^verbatim>\<open>parseFloat(...) || 0\<close>: NaN and zero both give zero.\<close>

fun orZero :: "real option \<Rightarrow> real" where
  "orZero None = 0"
| "orZero (Some m) = m"

text \<open>Checks if the item would collide with the eventual position of the overflow item.\<close>

definition wouldItemCollide ::
  "ProviderContextPrepared \<Rightarrow> toolbar \<Rightarrow> addr \<Rightarrow> ClientRect \<Rightarrow> ClientRect \<Rightarrow> ClientRect \<Rightarrow> bool" where
  "wouldItemCollide ctx s el itemBoundingRect overflowItemBoundingRect containerBoundingRect =
     (if rtl ctx then
        let itemLeftMargin = orZero (marginLeft (heap s el))
        in left itemBoundingRect - width overflowItemBoundingRect - itemLeftMargin
             < left containerBoundingRect
      else
        let itemRightMargin = orZero (marginRight (heap s el))
        in right itemBoundingRect + width overflowItemBoundingRect + itemRightMargin
             > right containerBoundingRect)"

section \<open>The overflow positioner\<close>

text \<open>
  Positions the overflow item next to the last visible item. \<open>lastVisibleItem\<close> carries the
  element together with its rectangle, which the source sets and reads together.
\<close>

definition setOverflowPosition ::
  "ProviderContextPrepared \<Rightarrow> addr \<Rightarrow> (addr \<times> ClientRect) option \<Rightarrow> ClientRect \<Rightarrow> PositionOffset
     \<Rightarrow> toolbar \<Rightarrow> toolbar" where
  "setOverflowPosition ctx overflowItem lastVisibleItem containerBoundingRect
       absolutePositioningOffset s =
     (case lastVisibleItem of
        Some (lastVisible, lastVisibleItemRect) \<Rightarrow>
          (if rtl ctx then
             let lastVisibleItemMarginLeft = orZero (marginLeft (heap s lastVisible))
             in update_el overflowItem
                  (\<lambda>e. e\<lparr>style_right := Some (Px (right containerBoundingRect
                                                     - left lastVisibleItemRect
                                                     + lastVisibleItemMarginLeft
                                                     + horizontal absolutePositioningOffset))\<rparr>) s
           else
             let lastVisibleItemRightMargin = orZero (marginRight (heap s lastVisible))
             in update_el overflowItem
                  (\<lambda>e. e\<lparr>style_left := Some (Px (right lastVisibleItemRect
                                                    - left containerBoundingRect
                                                    + lastVisibleItemRightMargin
                                                    + horizontal absolutePositioningOffset))\<rparr>) s)
      | None \<Rightarrow>
          (let s1 = s\<lparr>lastVisibleItemIndex := Some (- 1)\<rparr>
           in if rtl ctx then
                update_el overflowItem
                  (\<lambda>e. e\<lparr>style_right := Some (Px (horizontal absolutePositioningOffset))\<rparr>) s1
              else
                update_el overflowItem
                  (\<lambda>e. e\<lparr>style_left := Some (Px (horizontal absolutePositioningOffset))\<rparr>) s1))"

section \<open>The visibility scanner\<close>

text \<open>
  The local variables of \<^verbatim>\<open>hideOverflowItems\<close> that the loop body writes, with the
  component state.
\<close>

record scan =
  isOverflowing :: bool
  lastVisibleItem :: "(addr \<times> ClientRect) option"
  st :: toolbar

text \<open>
  The body of the loop: the callback given to \<^verbatim>\<open>_.forEachRight\<close>, called with an
  element and its index. The first component of the result is the value the callback
  returns.
\<close>

definition iteratee ::
  "ProviderContextPrepared \<Rightarrow> (toolbar \<Rightarrow> addr option) \<Rightarrow> addr \<Rightarrow> ClientRect \<Rightarrow> ClientRect
     \<Rightarrow> addr \<times> nat \<Rightarrow> scan \<Rightarrow> bool \<times> scan" where
  "iteratee ctx gff overflowItem overflowContainerBoundingRect overflowItemBoundingRect x v =
     (case x of (el, i) \<Rightarrow>
        if el = overflowItem then (True, v)
        else
          let itemBoundingRect = boundingClientRect (heap (st v) el)
          in if isItemOverflowing itemBoundingRect overflowContainerBoundingRect then
               (True, v\<lparr>isOverflowing := True, st := hide gff el (st v)\<rparr>)
             else if isOverflowing v \<and> lastVisibleItem v = None
                     \<and> wouldItemCollide ctx (st v) el itemBoundingRect overflowItemBoundingRect
                          overflowContainerBoundingRect then
               (True, v\<lparr>st := hide gff el (st v)\<rparr>)
             else
               let v1 = (if lastVisibleItem v = None
                         then v\<lparr>lastVisibleItem := Some (el, itemBoundingRect),
                                st := (st v)\<lparr>lastVisibleItemIndex := Some (int i)\<rparr>\<rparr>
                         else v)
               in (case show_el el (st v1) of (r, s') \<Rightarrow> (r, v1\<lparr>st := s'\<rparr>)))"

text \<open>
  \<^verbatim>\<open>_.forEachRight\<close> on the elements it still has to visit, nearest first: it stops as
  soon as the callback returns \<^verbatim>\<open>false\<close>.
\<close>

fun forEachRight :: "('a \<Rightarrow> 'b \<Rightarrow> bool \<times> 'b) \<Rightarrow> 'a list \<Rightarrow> 'b \<Rightarrow> 'b" where
  "forEachRight f [] v = v"
| "forEachRight f (x # xs) v =
     (case f x v of (continue, v') \<Rightarrow> if continue then forEachRight f xs v' else v')"

text \<open>The elements of a collection with their indices, last first.\<close>

definition indexedRight :: "'a list \<Rightarrow> ('a \<times> nat) list" where
  "indexedRight xs = rev (zip xs [0..<length xs])"

text \<open>\<^verbatim>\<open>el.scrollTo(x, y)\<close>.\<close>

definition scrollTo :: "real \<Rightarrow> real \<Rightarrow> element \<Rightarrow> element" where
  "scrollTo x y el = el\<lparr>scroll := (x, y)\<rparr>"

definition MAX_SAFE_INTEGER :: real where
  "MAX_SAFE_INTEGER = 9007199254740991"

text \<open>\<^verbatim>\<open>_.invoke(props, 'onOverflow', lastVisibleItemIndex.current + 1)\<close>.\<close>

definition invokeOnOverflow :: "ToolbarProps \<Rightarrow> toolbar \<Rightarrow> toolbar" where
  "invokeOnOverflow props s =
     (if onOverflow props
      then s\<lparr>onOverflowCalls := onOverflowCalls s @ [map_option (\<lambda>i. i + 1) (lastVisibleItemIndex s)]\<rparr>
      else s)"

text \<open>One layout pass.\<close>

definition hideOverflowItems ::
  "ProviderContextPrepared \<Rightarrow> ToolbarProps \<Rightarrow> (toolbar \<Rightarrow> addr option) \<Rightarrow> toolbar \<Rightarrow> toolbar" where
  "hideOverflowItems ctx props gff s =
     (case (overflowContainerRef s, overflowItemRef s, offsetMeasureRef s) of
        (Some overflowContainer, Some overflowItem, Some offsetMeasure) \<Rightarrow>
          let s1 = (if rtl ctx then update_el overflowContainer (scrollTo MAX_SAFE_INTEGER 0) s
                    else update_el overflowContainer (scrollTo 0 0) s);
              els = children (heap s1 overflowContainer);
              overflowContainerBoundingRect = boundingClientRect (heap s1 overflowContainer);
              overflowItemBoundingRect = boundingClientRect (heap s1 overflowItem);
              offsetMeasureBoundingRect = boundingClientRect (heap s1 offsetMeasure);
              absolutePositioningOffset =
                \<lparr>vertical = top_edge overflowContainerBoundingRect - top_edge offsetMeasureBoundingRect,
                 horizontal = (if rtl ctx
                               then right offsetMeasureBoundingRect - right overflowContainerBoundingRect
                               else left overflowContainerBoundingRect - left offsetMeasureBoundingRect)\<rparr>;
              v = forEachRight
                    (iteratee ctx gff overflowItem overflowContainerBoundingRect overflowItemBoundingRect)
                    (indexedRight els)
                    \<lparr>isOverflowing = False, lastVisibleItem = None, st = s1\<rparr>;
              s2 = (if isOverflowing v \<or> overflowOpen props then
                      snd (show_el overflowItem
                        (setOverflowPosition ctx overflowItem (lastVisibleItem v)
                           overflowContainerBoundingRect absolutePositioningOffset
                           (update_el overflowItem (\<lambda>e. e\<lparr>position := ''absolute''\<rparr>) (st v))))
                    else
                      hide gff overflowItem
                        ((st v)\<lparr>lastVisibleItemIndex := Some (int (length (items props)) - 1)\<rparr>))
          in invokeOnOverflow props s2
      | _ \<Rightarrow> s)"

section \<open>The popup behavior\<close>

text \<open>
  \<^verbatim>\<open>popupBehavior\<close> maps the props of a popup to the attributes and key actions of its
  trigger and popup slots. Optional props are options; a property access on
  \<^verbatim>\<open>undefined\<close> is the error \<open>TypeError\<close>.
\<close>

datatype error = TypeError

datatype PopupEvents = OnClick | OnHover | OnFocus | OnContext

datatype on_prop = OnUndefined | OnEvent PopupEvents | OnArray "PopupEvents list"

datatype trapFocus_prop = TrapFocusUndefined | TrapFocusBool bool | TrapFocusObject

record trigger_props =
  as_prop :: "string option"
  href :: "string option"
  tabIndex :: "string option"

record trigger_element =
  el_props :: "trigger_props option"
  el_type :: "string option"

record PopupBehaviorProps =
  trapFocus :: trapFocus_prop
  on_events :: on_prop
  disabled :: "bool option"
  trigger :: "trigger_element option"
  tabbableTrigger :: "bool option"
  isOpenedByRightClick :: "bool option"

text \<open>
  The key codes of \<^verbatim>\<open>@fluentui/keyboard-key\<close> are kept by name.
\<close>

datatype keyboardKey =
  Escape | Enter | SpacebarKey | ArrowDown | ArrowUp | PageDown | PageUp | Home | End

datatype attr_value = Str string | Num int

record trigger_attributes =
  tabIndex_attr :: "attr_value option"
  aria_haspopup :: "string option"
  data_aa_class :: "string option"
  aria_disabled :: "bool option"

record popup_attributes =
  role :: string
  aria_modal :: "bool option"

text \<open>
  Each entry holds the \<^verbatim>\<open>keyCombinations\<close> of an action; \<open>None\<close> where the source's
  \<^verbatim>\<open>cond && [...]\<close> yields \<^verbatim>\<open>false\<close> or \<^verbatim>\<open>undefined\<close>.
\<close>

record key_actions =
  popup_closeAndFocusTrigger :: "keyboardKey list option"
  popup_preventScroll :: "keyboardKey list option"
  trigger_close :: "keyboardKey list option"
  trigger_toggle :: "keyboardKey list option"
  trigger_open :: "keyboardKey list option"

record behavior =
  attributes_trigger :: trigger_attributes
  attributes_popup :: popup_attributes
  keyActions :: key_actions

definition truthy_trapFocus :: "trapFocus_prop \<Rightarrow> bool" where
  "truthy_trapFocus t = (case t of TrapFocusUndefined \<Rightarrow> False | TrapFocusBool b \<Rightarrow> b | TrapFocusObject \<Rightarrow> True)"

definition truthy_bool :: "bool option \<Rightarrow> bool" where
  "truthy_bool b = (b = Some True)"

definition isFocusable :: "string option \<Rightarrow> string option \<Rightarrow> string option \<Rightarrow> bool" where
  "isFocusable as h type =
     (type = Some ''button'' \<or> type = Some ''input'' \<or> (type = Some ''a'' \<and> h \<noteq> None)
      \<or> as = Some ''button'')"

text \<open>\<^verbatim>\<open>props.trigger.props[attributeName]\<close>.\<close>

definition prop_lookup :: "trigger_props \<Rightarrow> string \<Rightarrow> string option" where
  "prop_lookup tp name =
     (if name = ''as'' then as_prop tp
      else if name = ''href'' then href tp
      else if name = ''tabIndex'' then tabIndex tp
      else None)"

definition getAriaAttributeFromProps ::
  "string \<Rightarrow> PopupBehaviorProps \<Rightarrow> attr_value \<Rightarrow> error + attr_value option" where
  "getAriaAttributeFromProps attributeName ps defaultValue =
     (case trigger ps of
        None \<Rightarrow> Inr None
      | Some t \<Rightarrow>
          (case el_props t of
             None \<Rightarrow> Inl TypeError
           | Some tp \<Rightarrow>
               (case prop_lookup tp attributeName of
                  Some v \<Rightarrow>
                    if v \<noteq> [] then Inr (Some (Str v))
                    else if isFocusable (as_prop tp) (href tp) (el_type t) then Inr None
                    else Inr (Some defaultValue)
                | None \<Rightarrow>
                    if isFocusable (as_prop tp) (href tp) (el_type t) then Inr None
                    else Inr (Some defaultValue))))"

definition onAsArray :: "on_prop \<Rightarrow> PopupEvents option list" where
  "onAsArray p = (case p of OnArray xs \<Rightarrow> map Some xs | OnEvent e \<Rightarrow> [Some e] | OnUndefined \<Rightarrow> [None])"

definition includes_event :: "PopupEvents option list \<Rightarrow> PopupEvents \<Rightarrow> bool" where
  "includes_event xs e = List.member xs (Some e)"

text \<open>
  \<open>production\<close> tells whether \<^verbatim>\<open>process.env.NODE_ENV\<close> is \<^verbatim>\<open>'production'\<close>.
\<close>

definition popupBehavior :: "bool \<Rightarrow> PopupBehaviorProps \<Rightarrow> error + behavior" where
  "popupBehavior production ps =
     (let evs = onAsArray (on_events ps);
          tabbableTriggerProps =
            (if truthy_bool (tabbableTrigger ps)
             then (case getAriaAttributeFromProps ''tabIndex'' ps (Num 0) of
                     Inl e \<Rightarrow> Inl e
                   | Inr ti \<Rightarrow> Inr (Some ti))
             else Inr None)
      in case tabbableTriggerProps of
           Inl e \<Rightarrow> Inl e
         | Inr ttp \<Rightarrow>
             Inr \<lparr>attributes_trigger =
                    (case ttp of
                       None \<Rightarrow>
                         \<lparr>tabIndex_attr = None, aria_haspopup = None, data_aa_class = None,
                          aria_disabled = disabled ps\<rparr>
                     | Some ti \<Rightarrow>
                         \<lparr>tabIndex_attr = ti, aria_haspopup = Some ''true'',
                          data_aa_class = (if production then None else Some ''PopupButton''),
                          aria_disabled = disabled ps\<rparr>),
                  attributes_popup =
                    \<lparr>role = (if truthy_trapFocus (trapFocus ps) then ''dialog'' else ''complementary''),
                     aria_modal = (if truthy_trapFocus (trapFocus ps) then Some True else None)\<rparr>,
                  keyActions =
                    \<lparr>popup_closeAndFocusTrigger = Some [Escape],
                     popup_preventScroll =
                       (if truthy_bool (isOpenedByRightClick ps) \<and> includes_event evs OnContext
                        then Some [ArrowDown, ArrowUp, PageDown, PageUp, Home, End] else None),
                     trigger_close = Some [Escape],
                     trigger_toggle =
                       (if includes_event evs OnClick then Some [Enter, SpacebarKey] else None),
                     trigger_open =
                       (if includes_event evs OnHover \<and> \<not> includes_event evs OnContext
                        then Some [Enter, SpacebarKey] else None)\<rparr>\<rparr>)"

section \<open>Notions used in the proofs\<close>

text \<open>
  The parts of an element that no operation of a layout pass writes: its rectangle, its
  computed margins and its place in the tree.
\<close>

definition geometry :: "element \<Rightarrow> ClientRect \<times> real option \<times> real option \<times> addr list \<times> addr list" where
  "geometry e = (boundingClientRect e, marginLeft e, marginRight e, children e, descendants e)"

text \<open>
  The four ways the loop body treats an element: it skips the overflow item, hides a cropped
  item, hides an item that would collide with the overflow item, or shows the item.
\<close>

datatype decision = Skip | Crop | Collide | Show

definition decide :: "ProviderContextPrepared \<Rightarrow> addr \<Rightarrow> ClientRect \<Rightarrow> ClientRect \<Rightarrow> addr \<Rightarrow> scan \<Rightarrow> decision" where
  "decide ctx oi cr oir el v =
     (if el = oi then Skip
      else if isItemOverflowing (boundingClientRect (heap (st v) el)) cr then Crop
      else if isOverflowing v \<and> lastVisibleItem v = None
              \<and> wouldItemCollide ctx (st v) el (boundingClientRect (heap (st v) el)) oir cr then Collide
      else Show)"

text \<open>The loop of a pass over the children \<open>ys\<close> of the container, started on \<open>v\<close>.\<close>

definition scanLoop ::
  "ProviderContextPrepared \<Rightarrow> (toolbar \<Rightarrow> addr option) \<Rightarrow> addr \<Rightarrow> ClientRect \<Rightarrow> ClientRect
     \<Rightarrow> addr list \<Rightarrow> scan \<Rightarrow> scan" where
  "scanLoop ctx gff oi cr oir ys v = forEachRight (iteratee ctx gff oi cr oir) (indexedRight ys) v"

text \<open>The state after the scroll reset that opens a pass.\<close>

definition scrolled :: "ProviderContextPrepared \<Rightarrow> addr \<Rightarrow> toolbar \<Rightarrow> toolbar" where
  "scrolled ctx oc s =
     (if rtl ctx then update_el oc (scrollTo MAX_SAFE_INTEGER 0) s else update_el oc (scrollTo 0 0) s)"

text \<open>The absolute positioning offset a pass measures.\<close>

definition measuredOffset :: "ProviderContextPrepared \<Rightarrow> ClientRect \<Rightarrow> ClientRect \<Rightarrow> PositionOffset" where
  "measuredOffset ctx cr omr =
     \<lparr>vertical = top_edge cr - top_edge omr,
      horizontal = (if rtl ctx then right omr - right cr else left cr - left omr)\<rparr>"

text \<open>
  The variables of the loop when the loop of a pass started on \<open>s\<close> ends: \<open>isOverflowing\<close>
  tells whether the scan found an overflow.
\<close>

definition scanned :: "ProviderContextPrepared \<Rightarrow> (toolbar \<Rightarrow> addr option) \<Rightarrow> toolbar \<Rightarrow> scan" where
  "scanned ctx gff s =
     (case (overflowContainerRef s, overflowItemRef s) of
        (Some oc, Some oi) \<Rightarrow>
          scanLoop ctx gff oi (boundingClientRect (heap s oc)) (boundingClientRect (heap s oi))
            (children (heap s oc))
            \<lparr>isOverflowing = False, lastVisibleItem = None, st = scrolled ctx oc s\<rparr>
      | _ \<Rightarrow> \<lparr>isOverflowing = False, lastVisibleItem = None, st = s\<rparr>)"

text \<open>
  What a pass does to the overflow item when there is an overflow or the menu is open: it
  positions the item absolutely, places it and shows it.
\<close>

definition place ::
  "ProviderContextPrepared \<Rightarrow> addr \<Rightarrow> (addr \<times> ClientRect) option \<Rightarrow> ClientRect \<Rightarrow> PositionOffset
     \<Rightarrow> toolbar \<Rightarrow> toolbar" where
  "place ctx oi lv cr off t =
     snd (show_el oi (setOverflowPosition ctx oi lv cr off
       (update_el oi (\<lambda>e. e\<lparr>position := ''absolute''\<rparr>) t)))"

section \<open>Example states\<close>

text \<open>
  A visible element without attributes and with zero margins, and the same element with a
  given horizontal extent.
\<close>

definition blank :: element where
  "blank = \<lparr>visibility = [], position = [], style_left = None, style_right = None,
     attributes = Map.empty, boundingClientRect = \<lparr>left = 0, right = 0, top_edge = 0, width = 0\<rparr>,
     marginLeft = Some 0, marginRight = Some 0, children = [], descendants = [], scroll = (0, 0)\<rparr>"

definition box :: "real \<Rightarrow> real \<Rightarrow> element" where
  "box l r = blank\<lparr>boundingClientRect := \<lparr>left = l, right = r, top_edge = 0, width = r - l\<rparr>\<rparr>"

text \<open>An element as \<open>hide\<close> leaves it when it was focusable.\<close>

definition hidden_item :: "element \<Rightarrow> element" where
  "hidden_item e =
     e\<lparr>visibility := ''hidden'',
       attributes := [IS_FOCUSABLE_ATTRIBUTE \<mapsto> ''false'', WAS_FOCUSABLE_ATTRIBUTE \<mapsto> ''true'']\<rparr>"

definition with_el :: "addr \<Rightarrow> element \<Rightarrow> toolbar \<Rightarrow> toolbar" where
  "with_el a e s = s\<lparr>heap := (heap s)(a := e)\<rparr>"

text \<open>
  The scenario of the specification: the container (element 0) spans 0 to 300, the items
  (elements 1, 2, 3) span 0 to 100, 100 to 220 and 220 to 340, the overflow item
  (element 4) is 30 wide, and the offset probe (element 5) sits at the origin of the
  container. Everything is visible, as after a first render.
\<close>

definition scenario :: toolbar where
  "scenario =
     \<lparr>heap = (\<lambda>_. blank)
        (0 := (box 0 300)\<lparr>children := [1, 2, 3, 4]\<rparr>,
         1 := box 0 100, 2 := box 100 220, 3 := box 220 340, 4 := box 340 370, 5 := box 0 0),
      overflowContainerRef = Some 0, overflowItemRef = Some 4, offsetMeasureRef = Some 5,
      containerRef = Some 6, activeElement = None, lastVisibleItemIndex = None,
      onOverflowCalls = []\<rparr>"

definition scan0 :: scan where
  "scan0 = \<lparr>isOverflowing = False, lastVisibleItem = None, st = scenario\<rparr>"

definition ltr :: ProviderContextPrepared where
  "ltr = \<lparr>rtl = False\<rparr>"

definition three_items :: ToolbarProps where
  "three_items = \<lparr>items = [item, item, item], overflowOpen = False, onOverflow = True\<rparr>"

text \<open>
  Props that are well-formed for \<^verbatim>\<open>PopupBehaviorProps\<close>: a tabbable trigger whose
  optional \<^verbatim>\<open>props\<close> are absent.
\<close>

definition no_trigger_props :: PopupBehaviorProps where
  "no_trigger_props =
     \<lparr>trapFocus = TrapFocusBool True, on_events = OnEvent OnClick, disabled = Some True,
      trigger = Some \<lparr>el_props = None, el_type = Some ''div''\<rparr>,
      tabbableTrigger = Some True, isOpenedByRightClick = None\<rparr>"

text \<open>
  A toolbar of two items after a resize: the first item (element 1) sticks out of the
  container on the left, the second (element 2) fits and is still hidden from an earlier
  pass; element 3 is the overflow item.
\<close>

definition reflowed :: toolbar where
  "reflowed =
     \<lparr>heap = (\<lambda>_. blank)
        (0 := (box 0 300)\<lparr>children := [1, 2, 3]\<rparr>,
         1 := box (- 10) 50, 2 := hidden_item (box 50 100), 3 := box 100 130, 5 := box 0 0),
      overflowContainerRef = Some 0, overflowItemRef = Some 3, offsetMeasureRef = Some 5,
      containerRef = Some 6, activeElement = None, lastVisibleItemIndex = None,
      onOverflowCalls = []\<rparr>"

text \<open>The same toolbar with both items inside the container and the first one still hidden.\<close>

definition stale :: toolbar where
  "stale = with_el 1 (hidden_item (box 0 50)) (with_el 2 (box 50 100) reflowed)"

definition two_items :: ToolbarProps where
  "two_items = \<lparr>items = [item, item], overflowOpen = False, onOverflow = True\<rparr>"

text \<open>The props of a toolbar that is given children instead of \<^verbatim>\<open>items\<close>.\<close>

definition children_only :: ToolbarProps where
  "children_only = \<lparr>items = [], overflowOpen = False, onOverflow = True\<rparr>"

text \<open>
  Variants of the scenario: the last two items cropped (the last one hidden by an earlier
  pass); the second item fitting but too close to the edge for the overflow item; and a
  container wide enough for all items.
\<close>

definition crowded :: toolbar where
  "crowded = with_el 2 (box 100 320) (with_el 3 (hidden_item (box 320 440)) scenario)"

definition tight :: toolbar where
  "tight = with_el 2 (box 100 280) (with_el 3 (box 280 400) scenario)"

definition roomy :: toolbar where
  "roomy = with_el 0 ((box 0 400)\<lparr>children := [1, 2, 3, 4]\<rparr>) scenario"

text \<open>
  The scenario with the focus on an element (element 7) inside the third item; the
  container contains every item and that element.
\<close>

definition nested :: toolbar where
  "nested =
     with_el 0 ((box 0 300)\<lparr>children := [1, 2, 3, 4], descendants := [1, 2, 3, 4, 7]\<rparr>)
       (with_el 3 ((box 220 340)\<lparr>descendants := [7]\<rparr>) (scenario\<lparr>activeElement := Some 7\<rparr>))"

section \<open>Facts about the toggler\<close>

lemmas pass_simps =
  hideOverflowItems_def indexedRight_def iteratee_def isItemOverflowing_def wouldItemCollide_def
  hide_def show_el_def update_el_def setOverflowPosition_def invokeOnOverflow_def scrollTo_def
  contains_def getAttribute_def setAttribute_def removeAttribute_def focus_def
  IS_FOCUSABLE_ATTRIBUTE_def WAS_FOCUSABLE_ATTRIBUTE_def Let_def upt_rec

lemmas ex_simps =
  scenario_def box_def blank_def ltr_def three_items_def hidden_item_def with_el_def

lemma attr_names_distinct: "IS_FOCUSABLE_ATTRIBUTE \<noteq> WAS_FOCUSABLE_ATTRIBUTE"
  by (simp add: IS_FOCUSABLE_ATTRIBUTE_def WAS_FOCUSABLE_ATTRIBUTE_def)

lemma hide_hidden: "visibility (heap s el) = ''hidden'' \<Longrightarrow> hide gff el s = s"
  by (simp add: hide_def)

lemma hide_visibility: "visibility (heap (hide gff el s) el) = ''hidden''"
  by (simp add: hide_def update_el_def setAttribute_def Let_def split: option.splits)

lemma hide_heap_other: "a \<noteq> el \<Longrightarrow> heap (hide gff el s) a = heap s a"
  by (simp add: hide_def update_el_def focus_def Let_def split: option.splits)

lemma show_el_heap_other: "a \<noteq> el \<Longrightarrow> heap (snd (show_el el s)) a = heap s a"
  by (simp add: show_el_def update_el_def Let_def split: option.splits)

lemma show_el_visibility: "visibility (heap (snd (show_el el s)) el) \<noteq> ''hidden''"
  by (simp add: show_el_def update_el_def Let_def setAttribute_def removeAttribute_def
      split: option.splits)

lemma show_el_fst: "fst (show_el el s) = (visibility (heap s el) = ''hidden'')"
  by (simp add: show_el_def Let_def)

lemma show_el_visible: "visibility (heap s el) \<noteq> ''hidden'' \<Longrightarrow> show_el el s = (False, s)"
  by (simp add: show_el_def)

subsection \<open>What hide and show leave alone\<close>

lemma hide_geometry: "geometry (heap (hide gff el s) a) = geometry (heap s a)"
  by (simp add: hide_def update_el_def focus_def setAttribute_def geometry_def Let_def split: option.splits)

lemma show_el_geometry: "geometry (heap (snd (show_el el s)) a) = geometry (heap s a)"
  by (simp add: show_el_def update_el_def setAttribute_def removeAttribute_def geometry_def Let_def split: option.splits)

lemma hide_scroll: "scroll (heap (hide gff el s) a) = scroll (heap s a)"
  by (simp add: hide_def update_el_def focus_def setAttribute_def Let_def split: option.splits)

lemma show_el_scroll: "scroll (heap (snd (show_el el s)) a) = scroll (heap s a)"
  by (simp add: show_el_def update_el_def setAttribute_def removeAttribute_def Let_def
      split: option.splits)

lemma hide_frame:
  "overflowContainerRef (hide gff el s) = overflowContainerRef s"
  "overflowItemRef (hide gff el s) = overflowItemRef s"
  "offsetMeasureRef (hide gff el s) = offsetMeasureRef s"
  "containerRef (hide gff el s) = containerRef s"
  "lastVisibleItemIndex (hide gff el s) = lastVisibleItemIndex s"
  "onOverflowCalls (hide gff el s) = onOverflowCalls s"
  by (simp_all add: hide_def update_el_def focus_def Let_def split: option.splits)

lemma show_el_frame:
  "overflowContainerRef (snd (show_el el s)) = overflowContainerRef s"
  "overflowItemRef (snd (show_el el s)) = overflowItemRef s"
  "offsetMeasureRef (snd (show_el el s)) = offsetMeasureRef s"
  "containerRef (snd (show_el el s)) = containerRef s"
  "lastVisibleItemIndex (snd (show_el el s)) = lastVisibleItemIndex s"
  "onOverflowCalls (snd (show_el el s)) = onOverflowCalls s"
  "activeElement (snd (show_el el s)) = activeElement s"
  by (simp_all add: show_el_def update_el_def Let_def split: option.splits)

lemma wouldItemCollide_geometry:
  "geometry (heap s el) = geometry (heap s' el) \<Longrightarrow>
   wouldItemCollide ctx s el r oir cr = wouldItemCollide ctx s' el r oir cr"
  by (simp add: wouldItemCollide_def geometry_def)

subsection \<open>The loop body\<close>

text \<open>
  The loop body follows \<open>decide\<close>; it writes the store at the visited element only, and never the geometry.
\<close>

lemma iteratee_Skip:
  "decide ctx oi cr oir el v = Skip \<Longrightarrow> iteratee ctx gff oi cr oir (el, i) v = (True, v)"
  by (simp add: decide_def iteratee_def Let_def split: if_splits)

lemma iteratee_Crop:
  "decide ctx oi cr oir el v = Crop \<Longrightarrow>
   iteratee ctx gff oi cr oir (el, i) v = (True, v\<lparr>isOverflowing := True, st := hide gff el (st v)\<rparr>)"
  by (simp add: decide_def iteratee_def Let_def split: if_splits)

lemma iteratee_Collide:
  "decide ctx oi cr oir el v = Collide \<Longrightarrow>
   iteratee ctx gff oi cr oir (el, i) v = (True, v\<lparr>st := hide gff el (st v)\<rparr>)"
  by (simp add: decide_def iteratee_def Let_def split: if_splits)

lemma iteratee_Show:
  "decide ctx oi cr oir el v = Show \<Longrightarrow>
   iteratee ctx gff oi cr oir (el, i) v =
     (visibility (heap (st v) el) = ''hidden'',
      (if lastVisibleItem v = None
       then v\<lparr>lastVisibleItem := Some (el, boundingClientRect (heap (st v) el)),
              st := snd (show_el el ((st v)\<lparr>lastVisibleItemIndex := Some (int i)\<rparr>))\<rparr>
       else v\<lparr>st := snd (show_el el (st v))\<rparr>))"
  by (auto simp add: decide_def iteratee_def Let_def show_el_def split: if_splits)

lemma decide_cong:
  assumes "isOverflowing w = isOverflowing v" "lastVisibleItem w = lastVisibleItem v"
    and "geometry (heap (st w) el) = geometry (heap (st v) el)"
  shows "decide ctx oi cr oir el w = decide ctx oi cr oir el v"
proof -
  have "boundingClientRect (heap (st w) el) = boundingClientRect (heap (st v) el)"
    using assms(3) by (simp add: geometry_def)
  moreover have "\<And>r. wouldItemCollide ctx (st w) el r oir cr = wouldItemCollide ctx (st v) el r oir cr"
    using assms(3) by (rule wouldItemCollide_geometry)
  ultimately show ?thesis using assms(1,2) by (simp add: decide_def)
qed

lemma iteratee_geometry:
  "geometry (heap (st (snd (iteratee ctx gff oi cr oir (el, i) v))) a) = geometry (heap (st v) a)"
  by (cases "decide ctx oi cr oir el v")
     (simp_all add: iteratee_Skip iteratee_Crop iteratee_Collide iteratee_Show hide_geometry
        show_el_geometry)

lemma iteratee_rect:
  "boundingClientRect (heap (st (snd (iteratee ctx gff oi cr oir (el, i) v))) a)
     = boundingClientRect (heap (st v) a)"
  using iteratee_geometry [of ctx gff oi cr oir el i v a] by (simp add: geometry_def)

lemma iteratee_collide:
  "wouldItemCollide ctx (st (snd (iteratee ctx gff oi cr oir (el, i) v))) a r oir' cr'
     = wouldItemCollide ctx (st v) a r oir' cr'"
  by (rule wouldItemCollide_geometry) (simp add: iteratee_geometry)

lemma iteratee_scroll:
  "scroll (heap (st (snd (iteratee ctx gff oi cr oir (el, i) v))) a) = scroll (heap (st v) a)"
  by (cases "decide ctx oi cr oir el v")
     (simp_all add: iteratee_Skip iteratee_Crop iteratee_Collide iteratee_Show hide_scroll
        show_el_scroll)

lemma iteratee_heap_other:
  "a \<noteq> el \<Longrightarrow> heap (st (snd (iteratee ctx gff oi cr oir (el, i) v))) a = heap (st v) a"
  by (cases "decide ctx oi cr oir el v")
     (simp_all add: iteratee_Skip iteratee_Crop iteratee_Collide iteratee_Show hide_heap_other
        show_el_heap_other)

lemma iteratee_heap_oi:
  "heap (st (snd (iteratee ctx gff oi cr oir (el, i) v))) oi = heap (st v) oi"
  by (cases "el = oi") (simp_all add: iteratee_heap_other, simp add: iteratee_def)

lemma iteratee_frame:
  "overflowContainerRef (st (snd (iteratee ctx gff oi cr oir (el, i) v))) = overflowContainerRef (st v)"
  "overflowItemRef (st (snd (iteratee ctx gff oi cr oir (el, i) v))) = overflowItemRef (st v)"
  "offsetMeasureRef (st (snd (iteratee ctx gff oi cr oir (el, i) v))) = offsetMeasureRef (st v)"
  "containerRef (st (snd (iteratee ctx gff oi cr oir (el, i) v))) = containerRef (st v)"
  "onOverflowCalls (st (snd (iteratee ctx gff oi cr oir (el, i) v))) = onOverflowCalls (st v)"
  by (cases "decide ctx oi cr oir el v";
      simp add: iteratee_Skip iteratee_Crop iteratee_Collide iteratee_Show hide_frame show_el_frame)+

lemma iteratee_ovf_mono:
  "isOverflowing v \<Longrightarrow> isOverflowing (snd (iteratee ctx gff oi cr oir (el, i) v))"
  by (cases "decide ctx oi cr oir el v")
     (simp_all add: iteratee_Skip iteratee_Crop iteratee_Collide iteratee_Show)

lemma iteratee_ovf_cause:
  "isOverflowing (snd (iteratee ctx gff oi cr oir (el, i) v)) \<Longrightarrow>
   isOverflowing v \<or> (el \<noteq> oi \<and> isItemOverflowing (boundingClientRect (heap (st v) el)) cr)"
  by (cases "decide ctx oi cr oir el v")
     (auto simp add: iteratee_Skip iteratee_Crop iteratee_Collide iteratee_Show decide_def
        split: if_splits)

lemma iteratee_lv_stable:
  "lastVisibleItem v = Some p \<Longrightarrow>
   lastVisibleItem (snd (iteratee ctx gff oi cr oir (el, i) v)) = Some p
   \<and> lastVisibleItemIndex (st (snd (iteratee ctx gff oi cr oir (el, i) v))) = lastVisibleItemIndex (st v)"
  by (cases "decide ctx oi cr oir el v")
     (simp_all add: iteratee_Skip iteratee_Crop iteratee_Collide iteratee_Show hide_frame show_el_frame)

lemma iteratee_lv_None:
  "lastVisibleItem (snd (iteratee ctx gff oi cr oir (el, i) v)) = None \<Longrightarrow> lastVisibleItem v = None"
  using iteratee_lv_stable [of v _ ctx gff oi cr oir el i] by (cases "lastVisibleItem v") auto

subsection \<open>The loop\<close>

text \<open>
  The loop visits the children from the last one back, so its properties are proved by induction on the list of children from the right.
\<close>

lemma indexedRight_snoc: "indexedRight (ys @ [y]) = (y, length ys) # indexedRight ys"
  by (simp add: indexedRight_def)

lemma scanLoop_Nil: "scanLoop ctx gff oi cr oir [] v = v"
  by (simp add: scanLoop_def indexedRight_def)

lemma scanLoop_snoc:
  "scanLoop ctx gff oi cr oir (ys @ [y]) v =
     (if fst (iteratee ctx gff oi cr oir (y, length ys) v)
      then scanLoop ctx gff oi cr oir ys (snd (iteratee ctx gff oi cr oir (y, length ys) v))
      else snd (iteratee ctx gff oi cr oir (y, length ys) v))"
  by (simp add: scanLoop_def indexedRight_snoc split: prod.splits)

lemma scanLoop_geometry:
  "geometry (heap (st (scanLoop ctx gff oi cr oir ys v)) a) = geometry (heap (st v) a)"
  by (induction ys arbitrary: v rule: rev_induct)
     (simp_all add: scanLoop_Nil scanLoop_snoc iteratee_geometry)

lemma scanLoop_scroll:
  "scroll (heap (st (scanLoop ctx gff oi cr oir ys v)) a) = scroll (heap (st v) a)"
  by (induction ys arbitrary: v rule: rev_induct)
     (simp_all add: scanLoop_Nil scanLoop_snoc iteratee_scroll)

lemma scanLoop_heap_other:
  "a \<notin> set ys \<Longrightarrow> heap (st (scanLoop ctx gff oi cr oir ys v)) a = heap (st v) a"
  by (induction ys arbitrary: v rule: rev_induct)
     (simp_all add: scanLoop_Nil scanLoop_snoc iteratee_heap_other)

lemma scanLoop_heap_oi:
  "heap (st (scanLoop ctx gff oi cr oir ys v)) oi = heap (st v) oi"
  by (induction ys arbitrary: v rule: rev_induct)
     (simp_all add: scanLoop_Nil scanLoop_snoc iteratee_heap_oi)

lemma scanLoop_frame:
  "overflowContainerRef (st (scanLoop ctx gff oi cr oir ys v)) = overflowContainerRef (st v)"
  "overflowItemRef (st (scanLoop ctx gff oi cr oir ys v)) = overflowItemRef (st v)"
  "offsetMeasureRef (st (scanLoop ctx gff oi cr oir ys v)) = offsetMeasureRef (st v)"
  "containerRef (st (scanLoop ctx gff oi cr oir ys v)) = containerRef (st v)"
  "onOverflowCalls (st (scanLoop ctx gff oi cr oir ys v)) = onOverflowCalls (st v)"
  by (induction ys arbitrary: v rule: rev_induct;
      simp add: scanLoop_Nil scanLoop_snoc iteratee_frame)+

lemma scanLoop_ovf_mono:
  "isOverflowing v \<Longrightarrow> isOverflowing (scanLoop ctx gff oi cr oir ys v)"
  by (induction ys arbitrary: v rule: rev_induct)
     (simp_all add: scanLoop_Nil scanLoop_snoc iteratee_ovf_mono)

lemma scanLoop_no_crop:
  assumes "\<And>x. x \<in> set ys \<Longrightarrow> x \<noteq> oi \<Longrightarrow> \<not> isItemOverflowing (boundingClientRect (heap (st v) x)) cr"
  shows "isOverflowing (scanLoop ctx gff oi cr oir ys v) = isOverflowing v"
  using assms
proof (induction ys arbitrary: v rule: rev_induct)
  case Nil
  then show ?case by (simp add: scanLoop_Nil)
next
  case (snoc y ys)
  let ?it = "iteratee ctx gff oi cr oir (y, length ys) v"
  have nc: "decide ctx oi cr oir y v \<noteq> Crop"
    using snoc.prems [of y] by (auto simp add: decide_def split: if_splits)
  have one: "isOverflowing (snd ?it) = isOverflowing v"
    using nc
    by (cases "decide ctx oi cr oir y v")
       (simp_all add: iteratee_Skip iteratee_Collide iteratee_Show)
  have "isOverflowing (scanLoop ctx gff oi cr oir ys (snd ?it)) = isOverflowing (snd ?it)"
  proof (rule snoc.IH)
    fix x assume "x \<in> set ys" "x \<noteq> oi"
    then show "\<not> isItemOverflowing (boundingClientRect (heap (st (snd ?it)) x)) cr"
      using snoc.prems [of x] by (simp add: iteratee_rect)
  qed
  with one show ?case by (simp add: scanLoop_snoc)
qed

lemma scanLoop_lv_stable:
  "lastVisibleItem v = Some p \<Longrightarrow>
   lastVisibleItem (scanLoop ctx gff oi cr oir ys v) = Some p
   \<and> lastVisibleItemIndex (st (scanLoop ctx gff oi cr oir ys v)) = lastVisibleItemIndex (st v)"
  by (induction ys arbitrary: v rule: rev_induct)
     (simp_all add: scanLoop_Nil scanLoop_snoc iteratee_lv_stable)

lemma scanLoop_lv_index:
  "lastVisibleItem v = None \<Longrightarrow> lastVisibleItem (scanLoop ctx gff oi cr oir ys v) = Some p \<Longrightarrow>
   \<exists>m < length ys. p = (ys ! m, boundingClientRect (heap (st v) (ys ! m))) \<and> ys ! m \<noteq> oi
      \<and> lastVisibleItemIndex (st (scanLoop ctx gff oi cr oir ys v)) = Some (int m)"
proof (induction ys arbitrary: v rule: rev_induct)
  case Nil
  then show ?case by (simp add: scanLoop_Nil)
next
  case (snoc y ys)
  let ?it = "iteratee ctx gff oi cr oir (y, length ys) v"
  show ?case
  proof (cases "lastVisibleItem (snd ?it)")
    case None
    then have cont: "fst ?it"
      using snoc.prems by (auto simp add: scanLoop_snoc split: if_splits)
    with snoc.prems have "lastVisibleItem (scanLoop ctx gff oi cr oir ys (snd ?it)) = Some p"
      by (simp add: scanLoop_snoc)
    from snoc.IH [OF None this]
    obtain m where m: "m < length ys"
      "p = (ys ! m, boundingClientRect (heap (st (snd ?it)) (ys ! m)))" "ys ! m \<noteq> oi"
      "lastVisibleItemIndex (st (scanLoop ctx gff oi cr oir ys (snd ?it))) = Some (int m)"
      by blast
    have "boundingClientRect (heap (st (snd ?it)) (ys ! m)) = boundingClientRect (heap (st v) (ys ! m))"
      using iteratee_geometry [of ctx gff oi cr oir y "length ys" v "ys ! m"]
      by (simp add: geometry_def)
    with m cont show ?thesis
      by (auto simp add: scanLoop_snoc nth_append intro!: exI [of _ m])
  next
    case (Some q)
    have dec: "decide ctx oi cr oir y v = Show"
      using Some snoc.prems(1)
      by (cases "decide ctx oi cr oir y v")
         (simp_all add: iteratee_Skip iteratee_Crop iteratee_Collide)
    then have y: "y \<noteq> oi" by (auto simp add: decide_def split: if_splits)
    have q: "q = (y, boundingClientRect (heap (st v) y))"
      and idx: "lastVisibleItemIndex (st (snd ?it)) = Some (int (length ys))"
      using Some snoc.prems(1) dec by (simp_all add: iteratee_Show show_el_frame)
    have "lastVisibleItem (scanLoop ctx gff oi cr oir (ys @ [y]) v) = Some q
          \<and> lastVisibleItemIndex (st (scanLoop ctx gff oi cr oir (ys @ [y]) v)) = Some (int (length ys))"
      using scanLoop_lv_stable [OF Some, of ctx gff oi cr oir ys] Some idx
      by (simp add: scanLoop_snoc)
    with snoc.prems(2) q y show ?thesis
      by (auto intro!: exI [of _ "length ys"])
  qed
qed

subsection \<open>Why an item is hidden\<close>

lemma scanLoop_hidden_suffix:
  assumes "distinct ys" "k < length ys"
    and "visibility (heap (st v) (ys ! k)) \<noteq> ''hidden''"
    and "visibility (heap (st (scanLoop ctx gff oi cr oir ys v)) (ys ! k)) = ''hidden''"
    and "\<And>j. k < j \<Longrightarrow> j < length ys \<Longrightarrow> ys ! j \<noteq> oi
            \<Longrightarrow> visibility (heap (st v) (ys ! j)) = ''hidden''
            \<Longrightarrow> isItemOverflowing (boundingClientRect (heap (st v) (ys ! j))) cr"
    and "k < j" "j < length ys" "ys ! j \<noteq> oi"
  shows "visibility (heap (st (scanLoop ctx gff oi cr oir ys v)) (ys ! j)) = ''hidden''"
  using assms
proof (induction ys arbitrary: v rule: rev_induct)
  case Nil
  then show ?case by simp
next
  case (snoc y ys)
  let ?it = "iteratee ctx gff oi cr oir (y, length ys) v"
  from snoc.prems(2,6,7) have k: "k < length ys" by simp
  from snoc.prems(1) have d: "distinct ys" and y: "y \<notin> set ys" by simp_all
  from k y have ky: "ys ! k \<noteq> y" by (metis nth_mem)
  have ak: "(ys @ [y]) ! k = ys ! k" using k by (simp add: nth_append)
  have cont: "fst ?it"
  proof (rule ccontr)
    assume "\<not> fst ?it"
    then have "scanLoop ctx gff oi cr oir (ys @ [y]) v = snd ?it" by (simp add: scanLoop_snoc)
    with snoc.prems(3,4) ak ky show False by (simp add: iteratee_heap_other)
  qed
  then have loop: "scanLoop ctx gff oi cr oir (ys @ [y]) v = scanLoop ctx gff oi cr oir ys (snd ?it)"
    by (simp add: scanLoop_snoc)
  show ?case
  proof (cases "j = length ys")
    case True
    then have yj: "(ys @ [y]) ! j = y" by simp
    with snoc.prems(8) have yoi: "y \<noteq> oi" by simp
    have "visibility (heap (st (snd ?it)) y) = ''hidden''"
    proof (cases "decide ctx oi cr oir y v")
      case Skip
      with yoi show ?thesis by (simp add: decide_def split: if_splits)
    next
      case Crop
      then show ?thesis by (simp add: iteratee_Crop hide_visibility)
    next
      case Collide
      then show ?thesis by (simp add: iteratee_Collide hide_visibility)
    next
      case Show
      with cont have "visibility (heap (st v) y) = ''hidden''" by (simp add: iteratee_Show)
      with snoc.prems(5) [of j] snoc.prems(6) True yoi
      have "isItemOverflowing (boundingClientRect (heap (st v) y)) cr" by simp
      with Show yoi show ?thesis by (simp add: decide_def split: if_splits)
    qed
    with loop yj y show ?thesis by (simp add: scanLoop_heap_other)
  next
    case False
    with snoc.prems(7) have j: "j < length ys" by simp
    have aj: "(ys @ [y]) ! j = ys ! j" using j by (simp add: nth_append)
    have "visibility (heap (st (scanLoop ctx gff oi cr oir ys (snd ?it))) (ys ! j)) = ''hidden''"
    proof (rule snoc.IH [OF d k _ _ _ snoc.prems(6) j])
      show "visibility (heap (st (snd ?it)) (ys ! k)) \<noteq> ''hidden''"
        using snoc.prems(3) ak ky by (simp add: iteratee_heap_other)
      show "visibility (heap (st (scanLoop ctx gff oi cr oir ys (snd ?it))) (ys ! k)) = ''hidden''"
        using snoc.prems(4) ak loop by simp
      show "ys ! j \<noteq> oi" using snoc.prems(8) aj by simp
    next
      fix j' assume j': "k < j'" "j' < length ys" "ys ! j' \<noteq> oi"
        "visibility (heap (st (snd ?it)) (ys ! j')) = ''hidden''"
      from j'(2) y have "ys ! j' \<noteq> y" by (metis nth_mem)
      with j'(4) have "visibility (heap (st v) (ys ! j')) = ''hidden''"
        by (simp add: iteratee_heap_other)
      with snoc.prems(5) [of j'] j' have "isItemOverflowing (boundingClientRect (heap (st v) (ys ! j'))) cr"
        by (simp add: nth_append)
      then show "isItemOverflowing (boundingClientRect (heap (st (snd ?it)) (ys ! j'))) cr"
        by (simp add: iteratee_rect)
    qed
    with loop aj show ?thesis by simp
  qed
qed

lemma scanLoop_collision_cause:
  assumes "distinct ys" "k < length ys" "ys ! k \<noteq> oi"
    and "visibility (heap (st v) (ys ! k)) \<noteq> ''hidden''"
    and "visibility (heap (st (scanLoop ctx gff oi cr oir ys v)) (ys ! k)) = ''hidden''"
    and "\<not> isItemOverflowing (boundingClientRect (heap (st v) (ys ! k))) cr"
  shows "wouldItemCollide ctx (st v) (ys ! k) (boundingClientRect (heap (st v) (ys ! k))) oir cr
         \<and> lastVisibleItem v = None
         \<and> (isOverflowing v
              \<or> (\<exists>j. k < j \<and> j < length ys \<and> ys ! j \<noteq> oi
                     \<and> isItemOverflowing (boundingClientRect (heap (st v) (ys ! j))) cr))
         \<and> isOverflowing (scanLoop ctx gff oi cr oir ys v)
         \<and> (\<forall>p. lastVisibleItem (scanLoop ctx gff oi cr oir ys v) = Some p
                \<longrightarrow> (\<exists>m<k. lastVisibleItemIndex (st (scanLoop ctx gff oi cr oir ys v)) = Some (int m)))"
  using assms
proof (induction ys arbitrary: v rule: rev_induct)
  case Nil
  then show ?case by simp
next
  case (snoc y ys)
  let ?it = "iteratee ctx gff oi cr oir (y, length ys) v"
  from snoc.prems(1) have d: "distinct ys" and y: "y \<notin> set ys" by simp_all
  show ?case
  proof (cases "k = length ys")
    case True
    then have ak: "(ys @ [y]) ! k = y" by simp
    with snoc.prems(3) have yoi: "y \<noteq> oi" by simp
    have fin: "visibility (heap (st (scanLoop ctx gff oi cr oir (ys @ [y]) v)) y)
        = visibility (heap (st (snd ?it)) y)"
      using y by (simp add: scanLoop_snoc scanLoop_heap_other)
    have dec: "decide ctx oi cr oir y v = Collide"
    proof (cases "decide ctx oi cr oir y v")
      case Skip
      with yoi show ?thesis by (simp add: decide_def split: if_splits)
    next
      case Crop
      with snoc.prems(6) ak show ?thesis by (simp add: decide_def split: if_splits)
    next
      case Collide
      then show ?thesis .
    next
      case Show
      have "visibility (heap (st (snd ?it)) y) \<noteq> ''hidden''"
        using Show by (simp add: iteratee_Show show_el_visibility)
      with fin snoc.prems(5) ak show ?thesis by simp
    qed
    then have pre: "isOverflowing v" "lastVisibleItem v = None"
      "wouldItemCollide ctx (st v) y (boundingClientRect (heap (st v) y)) oir cr"
      by (simp_all add: decide_def split: if_splits)
    have loop: "scanLoop ctx gff oi cr oir (ys @ [y]) v
        = scanLoop ctx gff oi cr oir ys (v\<lparr>st := hide gff y (st v)\<rparr>)"
      using dec by (simp add: scanLoop_snoc iteratee_Collide)
    have ovf: "isOverflowing (scanLoop ctx gff oi cr oir (ys @ [y]) v)"
      unfolding loop using pre(1) by (simp add: scanLoop_ovf_mono)
    have lv: "\<exists>m<k. lastVisibleItemIndex (st (scanLoop ctx gff oi cr oir (ys @ [y]) v)) = Some (int m)"
      if "lastVisibleItem (scanLoop ctx gff oi cr oir (ys @ [y]) v) = Some p" for p
      using scanLoop_lv_index [of "v\<lparr>st := hide gff y (st v)\<rparr>" ctx gff oi cr oir ys p]
        that pre(2) True unfolding loop by auto
    from pre ovf lv ak show ?thesis by auto
  next
    case False
    with snoc.prems(2) have k: "k < length ys" by simp
    from k y have ky: "ys ! k \<noteq> y" by (metis nth_mem)
    have ak: "(ys @ [y]) ! k = ys ! k" using k by (simp add: nth_append)
    have cont: "fst ?it"
    proof (rule ccontr)
      assume "\<not> fst ?it"
      then have "scanLoop ctx gff oi cr oir (ys @ [y]) v = snd ?it" by (simp add: scanLoop_snoc)
      with snoc.prems(4,5) ak ky show False by (simp add: iteratee_heap_other)
    qed
    then have loop: "scanLoop ctx gff oi cr oir (ys @ [y]) v = scanLoop ctx gff oi cr oir ys (snd ?it)"
      by (simp add: scanLoop_snoc)
    have ih: "wouldItemCollide ctx (st (snd ?it)) (ys ! k)
                (boundingClientRect (heap (st (snd ?it)) (ys ! k))) oir cr
         \<and> lastVisibleItem (snd ?it) = None
         \<and> (isOverflowing (snd ?it)
              \<or> (\<exists>j. k < j \<and> j < length ys \<and> ys ! j \<noteq> oi
                     \<and> isItemOverflowing (boundingClientRect (heap (st (snd ?it)) (ys ! j))) cr))
         \<and> isOverflowing (scanLoop ctx gff oi cr oir ys (snd ?it))
         \<and> (\<forall>p. lastVisibleItem (scanLoop ctx gff oi cr oir ys (snd ?it)) = Some p
                \<longrightarrow> (\<exists>m<k. lastVisibleItemIndex (st (scanLoop ctx gff oi cr oir ys (snd ?it))) = Some (int m)))"
    proof (rule snoc.IH [OF d k])
      show "ys ! k \<noteq> oi" using snoc.prems(3) ak by simp
      show "visibility (heap (st (snd ?it)) (ys ! k)) \<noteq> ''hidden''"
        using snoc.prems(4) ak ky by (simp add: iteratee_heap_other)
      show "visibility (heap (st (scanLoop ctx gff oi cr oir ys (snd ?it))) (ys ! k)) = ''hidden''"
        using snoc.prems(5) ak loop by simp
      show "\<not> isItemOverflowing (boundingClientRect (heap (st (snd ?it)) (ys ! k))) cr"
        using snoc.prems(6) ak by (simp add: iteratee_rect)
    qed
    have c1: "wouldItemCollide ctx (st v) ((ys @ [y]) ! k)
        (boundingClientRect (heap (st v) ((ys @ [y]) ! k))) oir cr"
      using ih ak by (simp add: iteratee_rect iteratee_collide)
    have c2: "lastVisibleItem v = None" using ih iteratee_lv_None by blast
    have c3: "isOverflowing v
        \<or> (\<exists>j. k < j \<and> j < length (ys @ [y]) \<and> (ys @ [y]) ! j \<noteq> oi
               \<and> isItemOverflowing (boundingClientRect (heap (st v) ((ys @ [y]) ! j))) cr)"
    proof -
      from ih consider (a) "isOverflowing (snd ?it)"
        | (b) "\<exists>j. k < j \<and> j < length ys \<and> ys ! j \<noteq> oi
                  \<and> isItemOverflowing (boundingClientRect (heap (st (snd ?it)) (ys ! j))) cr"
        by blast
      then show ?thesis
      proof cases
        case a
        from iteratee_ovf_cause [OF a] show ?thesis
        proof
          assume "isOverflowing v" then show ?thesis by simp
        next
          assume "y \<noteq> oi \<and> isItemOverflowing (boundingClientRect (heap (st v) y)) cr"
          with k have "k < length ys \<and> length ys < length (ys @ [y]) \<and> (ys @ [y]) ! length ys \<noteq> oi
             \<and> isItemOverflowing (boundingClientRect (heap (st v) ((ys @ [y]) ! length ys))) cr"
            by simp
          then show ?thesis by blast
        qed
      next
        case b
        then obtain j where j: "k < j" "j < length ys" "ys ! j \<noteq> oi"
          "isItemOverflowing (boundingClientRect (heap (st (snd ?it)) (ys ! j))) cr" by blast
        then have "k < j \<and> j < length (ys @ [y]) \<and> (ys @ [y]) ! j \<noteq> oi
             \<and> isItemOverflowing (boundingClientRect (heap (st v) ((ys @ [y]) ! j))) cr"
          by (simp add: nth_append iteratee_rect)
        then show ?thesis by blast
      qed
    qed
    from c1 c2 c3 ih loop show ?thesis by simp
  qed
qed

subsection \<open>Running the loop again\<close>

text \<open>
  A second run on the state a first run left, with unchanged geometry, follows the first run up to the first item it shows and stops there.
\<close>

lemma scanLoop_rerun:
  assumes "distinct ys"
    and "isOverflowing w = isOverflowing v" "lastVisibleItem w = lastVisibleItem v"
    and "\<And>a. geometry (heap (st w) a) = geometry (heap (st v) a)"
    and "\<And>x. x \<in> set ys \<Longrightarrow> x \<noteq> oi \<Longrightarrow>
           visibility (heap (st w) x) = visibility (heap (st (scanLoop ctx gff oi cr oir ys v)) x)"
    and "\<And>i j. i < j \<Longrightarrow> j < length ys \<Longrightarrow> ys ! i \<noteq> oi \<Longrightarrow> ys ! j \<noteq> oi
           \<Longrightarrow> isItemOverflowing (boundingClientRect (heap (st v) (ys ! i))) cr
           \<Longrightarrow> isItemOverflowing (boundingClientRect (heap (st v) (ys ! j))) cr"
  shows "heap (st (scanLoop ctx gff oi cr oir ys w)) = heap (st w)
         \<and> activeElement (st (scanLoop ctx gff oi cr oir ys w)) = activeElement (st w)
         \<and> isOverflowing (scanLoop ctx gff oi cr oir ys w) = isOverflowing (scanLoop ctx gff oi cr oir ys v)
         \<and> lastVisibleItem (scanLoop ctx gff oi cr oir ys w) = lastVisibleItem (scanLoop ctx gff oi cr oir ys v)
         \<and> (lastVisibleItem v = None \<and> lastVisibleItem (scanLoop ctx gff oi cr oir ys v) \<noteq> None
              \<longrightarrow> lastVisibleItemIndex (st (scanLoop ctx gff oi cr oir ys w))
                    = lastVisibleItemIndex (st (scanLoop ctx gff oi cr oir ys v)))"
  using assms
proof (induction ys arbitrary: v w rule: rev_induct)
  case Nil
  then show ?case by (auto simp add: scanLoop_Nil)
next
  case (snoc y ys)
  let ?itv = "iteratee ctx gff oi cr oir (y, length ys) v"
  let ?itw = "iteratee ctx gff oi cr oir (y, length ys) w"
  let ?Lv = "scanLoop ctx gff oi cr oir (ys @ [y]) v"
  from snoc.prems(1) have d: "distinct ys" and y: "y \<notin> set ys" by simp_all
  have dw: "decide ctx oi cr oir y w = decide ctx oi cr oir y v"
    using snoc.prems(2,3,4) by (rule decide_cong)
  have mono: "isItemOverflowing (boundingClientRect (heap (st v) (ys ! j))) cr"
    if "i < j" "j < length ys" "ys ! i \<noteq> oi" "ys ! j \<noteq> oi"
      "isItemOverflowing (boundingClientRect (heap (st v) (ys ! i))) cr" for i j
    using snoc.prems(6) [of i j] that by (simp add: nth_append)
  have yfin: "visibility (heap (st ?Lv) y) = visibility (heap (st (snd ?itv)) y)"
    using y by (simp add: scanLoop_snoc scanLoop_heap_other)
  have agree_y: "y \<noteq> oi \<Longrightarrow> visibility (heap (st w) y) = visibility (heap (st (snd ?itv)) y)"
    using snoc.prems(5) [of y] yfin by simp
  text \<open>the cases in which both runs go on with the same flags\<close>
  have sync: ?case
    if cv: "fst ?itv" and cw: "fst ?itw"
      and hw: "heap (st (snd ?itw)) = heap (st w)"
      and aw: "activeElement (st (snd ?itw)) = activeElement (st w)"
      and fl: "isOverflowing (snd ?itw) = isOverflowing (snd ?itv)"
        "lastVisibleItem (snd ?itw) = lastVisibleItem (snd ?itv)"
      and lvn: "lastVisibleItem (snd ?itv) = lastVisibleItem v"
  proof -
    have lv: "?Lv = scanLoop ctx gff oi cr oir ys (snd ?itv)" using cv by (simp add: scanLoop_snoc)
    have lw: "scanLoop ctx gff oi cr oir (ys @ [y]) w = scanLoop ctx gff oi cr oir ys (snd ?itw)"
      using cw by (simp add: scanLoop_snoc)
    have ih: "heap (st (scanLoop ctx gff oi cr oir ys (snd ?itw))) = heap (st (snd ?itw))
         \<and> activeElement (st (scanLoop ctx gff oi cr oir ys (snd ?itw))) = activeElement (st (snd ?itw))
         \<and> isOverflowing (scanLoop ctx gff oi cr oir ys (snd ?itw))
             = isOverflowing (scanLoop ctx gff oi cr oir ys (snd ?itv))
         \<and> lastVisibleItem (scanLoop ctx gff oi cr oir ys (snd ?itw))
             = lastVisibleItem (scanLoop ctx gff oi cr oir ys (snd ?itv))
         \<and> (lastVisibleItem (snd ?itv) = None
              \<and> lastVisibleItem (scanLoop ctx gff oi cr oir ys (snd ?itv)) \<noteq> None
              \<longrightarrow> lastVisibleItemIndex (st (scanLoop ctx gff oi cr oir ys (snd ?itw)))
                    = lastVisibleItemIndex (st (scanLoop ctx gff oi cr oir ys (snd ?itv))))"
    proof (rule snoc.IH [OF d fl])
      fix a show "geometry (heap (st (snd ?itw)) a) = geometry (heap (st (snd ?itv)) a)"
        using snoc.prems(4) [of a] by (simp add: iteratee_geometry)
    next
      fix x assume x: "x \<in> set ys" "x \<noteq> oi"
      then show "visibility (heap (st (snd ?itw)) x)
          = visibility (heap (st (scanLoop ctx gff oi cr oir ys (snd ?itv))) x)"
        using snoc.prems(5) [of x] hw lv by simp
    next
      fix i j assume "i < j" "j < length ys" "ys ! i \<noteq> oi" "ys ! j \<noteq> oi"
        "isItemOverflowing (boundingClientRect (heap (st (snd ?itv)) (ys ! i))) cr"
      then show "isItemOverflowing (boundingClientRect (heap (st (snd ?itv)) (ys ! j))) cr"
        using mono [of i j] by (simp add: iteratee_rect)
    qed
    with lv lw hw aw lvn show ?thesis by simp
  qed
  show ?case
  proof (cases "decide ctx oi cr oir y v")
    case Skip
    with dw snoc.prems(2,3) show ?thesis by (intro sync) (simp_all add: iteratee_Skip)
  next
    case Crop
    then have yoi: "y \<noteq> oi" by (auto simp add: decide_def split: if_splits)
    have "visibility (heap (st w) y) = ''hidden''"
      using agree_y [OF yoi] Crop by (simp add: iteratee_Crop hide_visibility)
    then have "hide gff y (st w) = st w" by (rule hide_hidden)
    with Crop dw snoc.prems(2,3) show ?thesis by (intro sync) (simp_all add: iteratee_Crop)
  next
    case Collide
    then have yoi: "y \<noteq> oi" by (auto simp add: decide_def split: if_splits)
    have "visibility (heap (st w) y) = ''hidden''"
      using agree_y [OF yoi] Collide by (simp add: iteratee_Collide hide_visibility)
    then have "hide gff y (st w) = st w" by (rule hide_hidden)
    with Collide dw snoc.prems(2,3) show ?thesis by (intro sync) (simp_all add: iteratee_Collide)
  next
    case Show
    then have yoi: "y \<noteq> oi"
      and ync: "\<not> isItemOverflowing (boundingClientRect (heap (st v) y)) cr"
      by (auto simp add: decide_def split: if_splits)
    have visw: "visibility (heap (st w) y) \<noteq> ''hidden''"
      using agree_y [OF yoi] Show by (simp add: iteratee_Show show_el_visibility)
    have rect: "boundingClientRect (heap (st w) y) = boundingClientRect (heap (st v) y)"
      using snoc.prems(4) [of y] by (simp add: geometry_def)
    have itw: "?itw = (False,
        (if lastVisibleItem w = None
         then w\<lparr>lastVisibleItem := Some (y, boundingClientRect (heap (st w) y)),
                st := (st w)\<lparr>lastVisibleItemIndex := Some (int (length ys))\<rparr>\<rparr>
         else w))"
      using Show dw visw by (simp add: iteratee_Show show_el_visible)
    then have lw: "scanLoop ctx gff oi cr oir (ys @ [y]) w = snd ?itw"
      by (simp add: scanLoop_snoc)
    obtain q where q: "lastVisibleItem (snd ?itv) = Some q"
      using Show by (cases "lastVisibleItem v") (simp_all add: iteratee_Show)
    have stab: "lastVisibleItem ?Lv = Some q
        \<and> lastVisibleItemIndex (st ?Lv) = lastVisibleItemIndex (st (snd ?itv))"
      using scanLoop_lv_stable [OF q, of ctx gff oi cr oir ys] q by (simp add: scanLoop_snoc)
    have nocrop: "isOverflowing (scanLoop ctx gff oi cr oir ys (snd ?itv)) = isOverflowing (snd ?itv)"
    proof (rule scanLoop_no_crop)
      fix x assume x: "x \<in> set ys" "x \<noteq> oi"
      then obtain i where i: "i < length ys" "ys ! i = x" by (auto simp add: in_set_conv_nth)
      have "\<not> isItemOverflowing (boundingClientRect (heap (st v) x)) cr"
      proof
        assume "isItemOverflowing (boundingClientRect (heap (st v) x)) cr"
        with snoc.prems(6) [of i "length ys"] i x yoi
        have "isItemOverflowing (boundingClientRect (heap (st v) y)) cr"
          by (simp add: nth_append)
        with ync show False by simp
      qed
      then show "\<not> isItemOverflowing (boundingClientRect (heap (st (snd ?itv)) x)) cr"
        by (simp add: iteratee_rect)
    qed
    have ovfv: "isOverflowing ?Lv = isOverflowing v"
      using nocrop Show by (simp add: scanLoop_snoc iteratee_Show)
    have c1: "heap (st (snd ?itw)) = heap (st w)" "activeElement (st (snd ?itw)) = activeElement (st w)"
      "isOverflowing (snd ?itw) = isOverflowing w"
      using itw by simp_all
    have c2: "lastVisibleItem (snd ?itw) = Some q"
      using itw q Show snoc.prems(3) rect by (simp add: iteratee_Show split: if_splits)
    have c3: "lastVisibleItem v = None \<Longrightarrow>
        lastVisibleItemIndex (st (snd ?itw)) = lastVisibleItemIndex (st (snd ?itv))"
      using itw Show snoc.prems(3) by (simp add: iteratee_Show show_el_frame)
    from c1 c2 c3 stab ovfv snoc.prems(2) lw show ?thesis by simp
  qed
qed

subsection \<open>The pass as a whole\<close>

lemma scrolled_geometry: "geometry (heap (scrolled ctx oc s) a) = geometry (heap s a)"
  by (simp add: scrolled_def update_el_def scrollTo_def geometry_def)

lemma scrolled_visibility: "visibility (heap (scrolled ctx oc s) a) = visibility (heap s a)"
  by (simp add: scrolled_def update_el_def scrollTo_def)

lemma scrolled_frame:
  "overflowContainerRef (scrolled ctx oc s) = overflowContainerRef s"
  "overflowItemRef (scrolled ctx oc s) = overflowItemRef s"
  "offsetMeasureRef (scrolled ctx oc s) = offsetMeasureRef s"
  "containerRef (scrolled ctx oc s) = containerRef s"
  "onOverflowCalls (scrolled ctx oc s) = onOverflowCalls s"
  "lastVisibleItemIndex (scrolled ctx oc s) = lastVisibleItemIndex s"
  "activeElement (scrolled ctx oc s) = activeElement s"
  by (simp_all add: scrolled_def update_el_def)

lemma wouldItemCollide_scrolled:
  "wouldItemCollide ctx (scrolled ctx' oc s) a r oir cr = wouldItemCollide ctx s a r oir cr"
  by (rule wouldItemCollide_geometry) (simp add: scrolled_geometry)

lemma scrolled_twice:
  assumes "scroll (heap t oc) = scroll (heap (scrolled ctx oc s) oc)"
  shows "scrolled ctx oc t = t"
proof -
  have "(heap t oc)\<lparr>scroll := scroll (heap t oc)\<rparr> = heap t oc" by simp
  moreover have "scroll (heap (scrolled ctx oc s) oc) = (if rtl ctx then (MAX_SAFE_INTEGER, 0) else (0, 0))"
    by (simp add: scrolled_def update_el_def scrollTo_def)
  ultimately have "(heap t)(oc := scrollTo (if rtl ctx then MAX_SAFE_INTEGER else 0) 0 (heap t oc)) = heap t"
    using assms by (auto simp add: scrollTo_def fun_eq_iff split: if_splits)
  then show ?thesis
    by (auto simp add: scrolled_def update_el_def)
qed

lemma setOverflowPosition_frame:
  "onOverflowCalls (setOverflowPosition ctx oi lv cr off s) = onOverflowCalls s"
  "activeElement (setOverflowPosition ctx oi lv cr off s) = activeElement s"
  "lastVisibleItemIndex (setOverflowPosition ctx oi lv cr off s)
     = (case lv of None \<Rightarrow> Some (- 1) | Some p \<Rightarrow> lastVisibleItemIndex s)"
  by (simp_all add: setOverflowPosition_def update_el_def Let_def split: option.splits prod.splits)

lemma setOverflowPosition_heap_other:
  "a \<noteq> oi \<Longrightarrow> heap (setOverflowPosition ctx oi lv cr off s) a = heap s a"
  by (simp add: setOverflowPosition_def update_el_def Let_def split: option.splits prod.splits)

lemma setOverflowPosition_scroll:
  "scroll (heap (setOverflowPosition ctx oi lv cr off s) a) = scroll (heap s a)"
  by (simp add: setOverflowPosition_def update_el_def Let_def split: option.splits prod.splits)

lemma setOverflowPosition_geometry:
  "geometry (heap (setOverflowPosition ctx oi lv cr off s) a) = geometry (heap s a)"
  by (simp add: setOverflowPosition_def update_el_def geometry_def Let_def
      split: option.splits prod.splits)

lemma setOverflowPosition_refs:
  "overflowContainerRef (setOverflowPosition ctx oi lv cr off s) = overflowContainerRef s"
  "overflowItemRef (setOverflowPosition ctx oi lv cr off s) = overflowItemRef s"
  "offsetMeasureRef (setOverflowPosition ctx oi lv cr off s) = offsetMeasureRef s"
  "containerRef (setOverflowPosition ctx oi lv cr off s) = containerRef s"
  by (simp_all add: setOverflowPosition_def update_el_def Let_def split: option.splits prod.splits)

lemma invokeOnOverflow_frame:
  "heap (invokeOnOverflow props t) = heap t"
  "activeElement (invokeOnOverflow props t) = activeElement t"
  "lastVisibleItemIndex (invokeOnOverflow props t) = lastVisibleItemIndex t"
  by (simp_all add: invokeOnOverflow_def)

lemma hideOverflowItems_unfold:
  assumes "overflowContainerRef s = Some oc" "overflowItemRef s = Some oi" "offsetMeasureRef s = Some om"
  shows "hideOverflowItems ctx props gff s =
     invokeOnOverflow props
       (if isOverflowing (scanned ctx gff s) \<or> overflowOpen props then
          snd (show_el oi
            (setOverflowPosition ctx oi (lastVisibleItem (scanned ctx gff s))
               (boundingClientRect (heap s oc))
               (measuredOffset ctx (boundingClientRect (heap s oc)) (boundingClientRect (heap s om)))
               (update_el oi (\<lambda>e. e\<lparr>position := ''absolute''\<rparr>) (st (scanned ctx gff s)))))
        else
          hide gff oi
            ((st (scanned ctx gff s))\<lparr>lastVisibleItemIndex := Some (int (length (items props)) - 1)\<rparr>))"
proof -
  have g: "\<And>a. boundingClientRect (heap (scrolled ctx oc s) a) = boundingClientRect (heap s a)"
    "\<And>a. children (heap (scrolled ctx oc s) a) = children (heap s a)"
    using scrolled_geometry [of ctx oc s] by (simp_all add: geometry_def)
  show ?thesis
    using assms g
    by (simp add: hideOverflowItems_def scanned_def scanLoop_def measuredOffset_def
        scrolled_def [symmetric] Let_def)
qed

lemma scanned_frame:
  assumes "overflowContainerRef s = Some oc" "overflowItemRef s = Some oi"
  shows "onOverflowCalls (st (scanned ctx gff s)) = onOverflowCalls s"
  using assms by (simp add: scanned_def scanLoop_frame scrolled_frame)

lemma scanned_index:
  assumes "overflowContainerRef s = Some oc" "overflowItemRef s = Some oi"
    and "lastVisibleItem (scanned ctx gff s) = Some p"
  shows "\<exists>m < length (children (heap s oc)).
           p = (children (heap s oc) ! m, boundingClientRect (heap s (children (heap s oc) ! m)))
           \<and> children (heap s oc) ! m \<noteq> oi
           \<and> lastVisibleItemIndex (st (scanned ctx gff s)) = Some (int m)"
proof -
  let ?v0 = "\<lparr>isOverflowing = False, lastVisibleItem = None, st = scrolled ctx oc s\<rparr>"
  have "lastVisibleItem ?v0 = None" by simp
  moreover have "lastVisibleItem (scanLoop ctx gff oi (boundingClientRect (heap s oc))
      (boundingClientRect (heap s oi)) (children (heap s oc)) ?v0) = Some p"
    using assms by (simp add: scanned_def)
  ultimately obtain m where "m < length (children (heap s oc))"
    "p = (children (heap s oc) ! m, boundingClientRect (heap (st ?v0) (children (heap s oc) ! m)))"
    "children (heap s oc) ! m \<noteq> oi"
    "lastVisibleItemIndex (st (scanLoop ctx gff oi (boundingClientRect (heap s oc))
      (boundingClientRect (heap s oi)) (children (heap s oc)) ?v0)) = Some (int m)"
    using scanLoop_lv_index by blast
  moreover have "boundingClientRect (heap (scrolled ctx oc s) (children (heap s oc) ! m))
      = boundingClientRect (heap s (children (heap s oc) ! m))"
    using scrolled_geometry [of ctx oc s] by (simp add: geometry_def)
  ultimately show ?thesis using assms by (auto simp add: scanned_def)
qed

lemma scanned_props:
  assumes "overflowContainerRef s = Some oc" "overflowItemRef s = Some oi"
  shows "geometry (heap (st (scanned ctx gff s)) a) = geometry (heap s a)"
    and "scroll (heap (st (scanned ctx gff s)) a) = scroll (heap (scrolled ctx oc s) a)"
    and "overflowContainerRef (st (scanned ctx gff s)) = overflowContainerRef s"
    and "overflowItemRef (st (scanned ctx gff s)) = overflowItemRef s"
    and "offsetMeasureRef (st (scanned ctx gff s)) = offsetMeasureRef s"
    and "containerRef (st (scanned ctx gff s)) = containerRef s"
  using assms
  by (simp_all add: scanned_def scanLoop_geometry scanLoop_scroll scanLoop_frame scrolled_geometry
      scrolled_frame)

lemma pass_index:
  assumes "overflowContainerRef s = Some oc" "overflowItemRef s = Some oi" "offsetMeasureRef s = Some om"
  shows "lastVisibleItemIndex (hideOverflowItems ctx props gff s) =
     (if isOverflowing (scanned ctx gff s) \<or> overflowOpen props then
        (case lastVisibleItem (scanned ctx gff s) of
           None \<Rightarrow> Some (- 1)
         | Some p \<Rightarrow> lastVisibleItemIndex (st (scanned ctx gff s)))
      else Some (int (length (items props)) - 1))"
  by (simp add: hideOverflowItems_unfold [OF assms] invokeOnOverflow_def show_el_frame
      setOverflowPosition_frame hide_frame update_el_def split: option.splits)

lemma pass_heap_other:
  assumes "overflowContainerRef s = Some oc" "overflowItemRef s = Some oi" "offsetMeasureRef s = Some om"
    and "a \<noteq> oi"
  shows "heap (hideOverflowItems ctx props gff s) a = heap (st (scanned ctx gff s)) a"
  using assms(4)
  by (simp add: hideOverflowItems_unfold [OF assms(1-3)] invokeOnOverflow_def show_el_heap_other
      setOverflowPosition_heap_other hide_heap_other update_el_def)

lemma pass_props:
  assumes "overflowContainerRef s = Some oc" "overflowItemRef s = Some oi" "offsetMeasureRef s = Some om"
  shows "geometry (heap (hideOverflowItems ctx props gff s) a) = geometry (heap s a)"
    and "scroll (heap (hideOverflowItems ctx props gff s) a) = scroll (heap (scrolled ctx oc s) a)"
    and "overflowContainerRef (hideOverflowItems ctx props gff s) = overflowContainerRef s"
    and "overflowItemRef (hideOverflowItems ctx props gff s) = overflowItemRef s"
    and "offsetMeasureRef (hideOverflowItems ctx props gff s) = offsetMeasureRef s"
    and "containerRef (hideOverflowItems ctx props gff s) = containerRef s"
proof -
  have upd_g: "\<And>t. geometry (heap (update_el oi (\<lambda>e. e\<lparr>position := ''absolute''\<rparr>) t) a) = geometry (heap t a)"
    by (simp add: update_el_def geometry_def)
  have upd_s: "\<And>t. scroll (heap (update_el oi (\<lambda>e. e\<lparr>position := ''absolute''\<rparr>) t) a) = scroll (heap t a)"
    by (simp add: update_el_def)
  show "geometry (heap (hideOverflowItems ctx props gff s) a) = geometry (heap s a)"
    by (simp add: hideOverflowItems_unfold [OF assms] invokeOnOverflow_def show_el_geometry
        setOverflowPosition_geometry hide_geometry upd_g scanned_props(1) [OF assms(1,2)])
  show "scroll (heap (hideOverflowItems ctx props gff s) a) = scroll (heap (scrolled ctx oc s) a)"
    by (simp add: hideOverflowItems_unfold [OF assms] invokeOnOverflow_def show_el_scroll
        setOverflowPosition_scroll hide_scroll upd_s scanned_props(2) [OF assms(1,2)])
  show "overflowContainerRef (hideOverflowItems ctx props gff s) = overflowContainerRef s"
    "overflowItemRef (hideOverflowItems ctx props gff s) = overflowItemRef s"
    "offsetMeasureRef (hideOverflowItems ctx props gff s) = offsetMeasureRef s"
    "containerRef (hideOverflowItems ctx props gff s) = containerRef s"
    by (simp_all add: hideOverflowItems_unfold [OF assms] invokeOnOverflow_def show_el_frame
        setOverflowPosition_refs hide_frame update_el_def scanned_props [OF assms(1,2)])
qed

subsection \<open>Placing the overflow item\<close>

lemma place_heap_cong:
  "heap t2 = heap t1 \<Longrightarrow> heap (place ctx oi lv cr off t2) = heap (place ctx oi lv cr off t1)"
  by (simp add: place_def show_el_def setOverflowPosition_def update_el_def getAttribute_def Let_def
      split: option.splits prod.splits)

lemma place_visible: "visibility (heap (place ctx oi lv cr off t) oi) \<noteq> ''hidden''"
  by (simp add: place_def show_el_visibility)

lemma place_other: "a \<noteq> oi \<Longrightarrow> heap (place ctx oi lv cr off t) a = heap t a"
  by (simp add: place_def show_el_heap_other setOverflowPosition_heap_other update_el_def)

lemma position_geometry:
  "geometry (heap (update_el oi (\<lambda>e. e\<lparr>position := p\<rparr>) t) a) = geometry (heap t a)"
  by (simp add: update_el_def geometry_def)

lemma place_geometry: "geometry (heap (place ctx oi lv cr off t) a) = geometry (heap t a)"
  by (simp add: place_def show_el_geometry setOverflowPosition_geometry position_geometry)

lemma place_margins:
  "marginLeft (heap (place ctx oi lv cr off t) b) = marginLeft (heap t b)"
  "marginRight (heap (place ctx oi lv cr off t) b) = marginRight (heap t b)"
  using place_geometry [of ctx oi lv cr off t b] by (simp_all add: geometry_def)

lemma place_activeElement: "activeElement (place ctx oi lv cr off t) = activeElement t"
  by (simp add: place_def show_el_frame setOverflowPosition_frame update_el_def)

lemma place_of_visible:
  assumes "visibility (heap t oi) \<noteq> ''hidden''"
  shows "heap (place ctx oi lv cr off t) oi =
     (case lv of
        Some (a, r) \<Rightarrow>
          if rtl ctx
          then (heap t oi)\<lparr>position := ''absolute'',
                 style_right := Some (Px (right cr - left r + orZero (marginLeft (heap t a)) + horizontal off))\<rparr>
          else (heap t oi)\<lparr>position := ''absolute'',
                 style_left := Some (Px (right r - left cr + orZero (marginRight (heap t a)) + horizontal off))\<rparr>
      | None \<Rightarrow>
          if rtl ctx
          then (heap t oi)\<lparr>position := ''absolute'', style_right := Some (Px (horizontal off))\<rparr>
          else (heap t oi)\<lparr>position := ''absolute'', style_left := Some (Px (horizontal off))\<rparr>)"
  using assms
  by (simp add: place_def show_el_def setOverflowPosition_def update_el_def Let_def
      split: option.splits prod.splits)

lemma place_styles:
  "position (heap (place ctx oi lv cr off t) oi) = ''absolute''"
  "rtl ctx \<Longrightarrow> style_right (heap (place ctx oi lv cr off t) oi) =
     Some (Px (case lv of
        Some (a, r) \<Rightarrow> right cr - left r + orZero (marginLeft (heap t a)) + horizontal off
      | None \<Rightarrow> horizontal off))"
  "\<not> rtl ctx \<Longrightarrow> style_left (heap (place ctx oi lv cr off t) oi) =
     Some (Px (case lv of
        Some (a, r) \<Rightarrow> right r - left cr + orZero (marginRight (heap t a)) + horizontal off
      | None \<Rightarrow> horizontal off))"
  by (simp_all add: place_def show_el_def setOverflowPosition_def update_el_def setAttribute_def
      removeAttribute_def Let_def split: option.splits prod.splits)

lemma place_heap_twice:
  "heap (place ctx oi lv cr off (place ctx oi lv cr off t)) = heap (place ctx oi lv cr off t)"
proof
  fix a
  let ?u = "place ctx oi lv cr off t"
  show "heap (place ctx oi lv cr off ?u) a = heap ?u a"
  proof (cases "a = oi")
    case False
    then show ?thesis by (simp add: place_other)
  next
    case True
    have "heap (place ctx oi lv cr off ?u) oi = heap ?u oi"
      using place_styles [of ctx oi lv cr off t]
      by (cases "rtl ctx")
         (auto simp add: place_of_visible [OF place_visible] place_margins intro!: element.equality
            split: option.splits prod.splits)
    with True show ?thesis by simp
  qed
qed

lemma place_heap_idem:
  assumes "heap t2 = heap (place ctx oi lv cr off t)"
  shows "heap (place ctx oi lv cr off t2) = heap (place ctx oi lv cr off t)"
  using place_heap_cong [OF assms] place_heap_twice by simp

section \<open>The claims\<close>

text \<open>
  C1: in the left-to-right scenario with zero margins and zero positioning offset
  (container 0 to 300, items 0 to 100, 100 to 220 and 220 to 340, overflow item 30 wide), a
  layout pass hides the third item, keeps the first two visible, records the last visible
  index 1 and gives the overflow item the inline style \<^verbatim>\<open>left: 220px\<close>. The overflow
  item is shown, absolutely positioned, and \<^verbatim>\<open>onOverflow\<close> is called with 2.
\<close>

theorem scenario_layout:
  "visibility (heap (hideOverflowItems ltr three_items gff scenario) 3) = ''hidden''
   \<and> visibility (heap (hideOverflowItems ltr three_items gff scenario) 1) \<noteq> ''hidden''
   \<and> visibility (heap (hideOverflowItems ltr three_items gff scenario) 2) \<noteq> ''hidden''
   \<and> lastVisibleItemIndex (hideOverflowItems ltr three_items gff scenario) = Some 1
   \<and> style_left (heap (hideOverflowItems ltr three_items gff scenario) 4) = Some (Px 220)
   \<and> position (heap (hideOverflowItems ltr three_items gff scenario) 4) = ''absolute''
   \<and> visibility (heap (hideOverflowItems ltr three_items gff scenario) 4) \<noteq> ''hidden''
   \<and> onOverflowCalls (hideOverflowItems ltr three_items gff scenario) = [Some 2]"
  by (simp add: pass_simps ex_simps)

text \<open>
  C2, as amended: if every item after item \<open>i\<close> that is hidden when the pass starts is itself
  cropped, and the pass hides item \<open>i\<close> (visible before, hidden after), which is cropped by
  the container bounds, then every item after \<open>i\<close> is hidden after the pass. Items are the
  children of the container other than the overflow item; the children are pairwise
  distinct elements.
\<close>

theorem hidden_items_form_suffix:
  assumes "overflowContainerRef s = Some oc" "overflowItemRef s = Some oi" "offsetMeasureRef s = Some om"
    and "distinct (children (heap s oc))"
    and "i < j" "j < length (children (heap s oc))"
    and "children (heap s oc) ! i \<noteq> oi" "children (heap s oc) ! j \<noteq> oi"
    and "isItemOverflowing (boundingClientRect (heap s (children (heap s oc) ! i)))
           (boundingClientRect (heap s oc))"
    and "visibility (heap s (children (heap s oc) ! i)) \<noteq> ''hidden''"
    and "visibility (heap (hideOverflowItems ctx props gff s) (children (heap s oc) ! i)) = ''hidden''"
    and "\<forall>k. i < k \<and> k < length (children (heap s oc)) \<and> children (heap s oc) ! k \<noteq> oi
             \<and> visibility (heap s (children (heap s oc) ! k)) = ''hidden''
           \<longrightarrow> isItemOverflowing (boundingClientRect (heap s (children (heap s oc) ! k)))
                 (boundingClientRect (heap s oc))"
  shows "visibility (heap (hideOverflowItems ctx props gff s) (children (heap s oc) ! j)) = ''hidden''"
proof -
  let ?ys = "children (heap s oc)"
  let ?v0 = "\<lparr>isOverflowing = False, lastVisibleItem = None, st = scrolled ctx oc s\<rparr>"
  let ?L = "scanLoop ctx gff oi (boundingClientRect (heap s oc)) (boundingClientRect (heap s oi)) ?ys ?v0"
  have sc: "scanned ctx gff s = ?L" using assms(1,2) by (simp add: scanned_def)
  have rect: "\<And>a. boundingClientRect (heap (scrolled ctx oc s) a) = boundingClientRect (heap s a)"
    using scrolled_geometry [of ctx oc s] by (simp add: geometry_def)
  have "visibility (heap (st ?L) (?ys ! j)) = ''hidden''"
  proof (rule scanLoop_hidden_suffix [OF assms(4) _ _ _ _ assms(5,6,8)])
    show "i < length ?ys" using assms(5,6) by simp
    show "visibility (heap (st ?v0) (?ys ! i)) \<noteq> ''hidden''"
      using assms(10) by (simp add: scrolled_visibility)
    show "visibility (heap (st ?L) (?ys ! i)) = ''hidden''"
      using assms(11) pass_heap_other [OF assms(1-3,7), of ctx props gff] sc by simp
  next
    fix k assume "i < k" "k < length ?ys" "?ys ! k \<noteq> oi"
      "visibility (heap (st ?v0) (?ys ! k)) = ''hidden''"
    then show "isItemOverflowing (boundingClientRect (heap (st ?v0) (?ys ! k))) (boundingClientRect (heap s oc))"
      using assms(12) by (simp add: scrolled_visibility rect)
  qed
  then show ?thesis
    using pass_heap_other [OF assms(1-3,8), of ctx props gff] sc by simp
qed

theorem hidden_items_form_suffix_witness:
  "isItemOverflowing (boundingClientRect (heap crowded 2)) (boundingClientRect (heap crowded 0))
   \<and> visibility (heap crowded 2) \<noteq> ''hidden''
   \<and> visibility (heap (hideOverflowItems ltr three_items (\<lambda>_. None) crowded) 2) = ''hidden''
   \<and> visibility (heap (hideOverflowItems ltr three_items (\<lambda>_. None) crowded) 3) = ''hidden''"
proof -
  have kids: "children (heap crowded 0) = [1, 2, 3, 4]"
    by (simp add: ex_simps crowded_def)
  have before: "visibility (heap crowded 2) \<noteq> ''hidden''"
    and cropped: "isItemOverflowing (boundingClientRect (heap crowded 2)) (boundingClientRect (heap crowded 0))"
    by (simp_all add: ex_simps crowded_def isItemOverflowing_def)
  have after: "visibility (heap (hideOverflowItems ltr three_items (\<lambda>_. None) crowded) 2) = ''hidden''"
    by (simp add: pass_simps ex_simps crowded_def)
  have later: "\<forall>k. 1 < k \<and> k < length (children (heap crowded 0)) \<and> children (heap crowded 0) ! k \<noteq> 4
             \<and> visibility (heap crowded (children (heap crowded 0) ! k)) = ''hidden''
           \<longrightarrow> isItemOverflowing (boundingClientRect (heap crowded (children (heap crowded 0) ! k)))
                 (boundingClientRect (heap crowded 0))"
    unfolding kids
    by (auto simp add: ex_simps crowded_def isItemOverflowing_def nth_Cons' split: if_splits)
  have "visibility (heap (hideOverflowItems ltr three_items (\<lambda>_. None) crowded) (children (heap crowded 0) ! 2)) = ''hidden''"
    using before cropped after later
    by (intro hidden_items_form_suffix [of crowded 0 4 5 1 2 ltr three_items "\<lambda>_. None"])
       (simp_all add: kids, simp_all add: ex_simps crowded_def)
  with before cropped after show ?thesis by (simp add: kids)
qed

text \<open>
  The claim as stated fails when an item that fits, and is still hidden from an earlier
  pass, follows a cropped item: the scan shows the later item and hides the cropped one.
\<close>

theorem hidden_items_suffix_counterexample:
  "isItemOverflowing (boundingClientRect (heap reflowed 1)) (boundingClientRect (heap reflowed 0))
   \<and> visibility (heap reflowed 1) \<noteq> ''hidden''
   \<and> visibility (heap (hideOverflowItems ltr two_items (\<lambda>_. None) reflowed) 1) = ''hidden''
   \<and> visibility (heap (hideOverflowItems ltr two_items (\<lambda>_. None) reflowed) 2) \<noteq> ''hidden''"
  by (simp add: pass_simps ex_simps reflowed_def two_items_def)

text \<open>
  C3: an item counts as cropped if and only if its right edge is strictly beyond the
  container's right edge or its left edge strictly before the container's left edge; an
  item whose edges equal the container's fits; and the scan applies the test in the same
  way whatever the writing direction: the loop body hides a cropped item and goes on, for
  every context.
\<close>

theorem cropped_iff:
  "(isItemOverflowing itemRect containerRect
      \<longleftrightarrow> right itemRect > right containerRect \<or> left itemRect < left containerRect)
   \<and> \<not> isItemOverflowing (itemRect\<lparr>left := left containerRect, right := right containerRect\<rparr>)
         containerRect
   \<and> (el \<noteq> oi \<and> isItemOverflowing (boundingClientRect (heap (st v) el)) containerRect
        \<longrightarrow> iteratee ctx gff oi containerRect oiRect (el, i) v
              = (True, v\<lparr>isOverflowing := True, st := hide gff el (st v)\<rparr>))"
  by (simp add: isItemOverflowing_def iteratee_def Let_def)

theorem cropped_iff_witness:
  "isItemOverflowing (boundingClientRect (heap scenario 3)) (boundingClientRect (heap scenario 0))
   \<and> \<not> isItemOverflowing (boundingClientRect (heap scenario 2)) (boundingClientRect (heap scenario 0))
   \<and> iteratee \<lparr>rtl = True\<rparr> (\<lambda>_. None) 4 (boundingClientRect (heap scenario 0))
        (boundingClientRect (heap scenario 4)) (3, 2) scan0
      = iteratee \<lparr>rtl = False\<rparr> (\<lambda>_. None) 4 (boundingClientRect (heap scenario 0))
        (boundingClientRect (heap scenario 4)) (3, 2) scan0"
  using cropped_iff [of "boundingClientRect (heap scenario 3)" "boundingClientRect (heap scenario 0)"
      3 4 scan0 "\<lparr>rtl = True\<rparr>" "\<lambda>_. None" "boundingClientRect (heap scenario 4)" 2]
    cropped_iff [of "boundingClientRect (heap scenario 2)" "boundingClientRect (heap scenario 0)"
      3 4 scan0 "\<lparr>rtl = False\<rparr>" "\<lambda>_. None" "boundingClientRect (heap scenario 4)" 2]
  by (simp add: ex_simps scan0_def)

text \<open>
  C4, as amended: an item is hidden on account of the collision test only if it is not
  cropped, some item after it is cropped, and the last visible item was not yet determined
  when the scan met it: every item that a pass hides without its being cropped would
  collide with the overflow item, has a cropped item after it, and has an index greater
  than the last visible index the pass records. Once the last visible item is recorded the
  loop body makes no collision test: it hides an item that is cropped and shows any other,
  and it returns \<^verbatim>\<open>false\<close>, which ends the scan, when the item it shows was already
  visible.
\<close>

theorem collision_only_before_last_visible:
  assumes "overflowContainerRef s = Some oc" "overflowItemRef s = Some oi" "offsetMeasureRef s = Some om"
    and "distinct (children (heap s oc))"
    and "k < length (children (heap s oc))" "children (heap s oc) ! k \<noteq> oi"
    and "visibility (heap s (children (heap s oc) ! k)) \<noteq> ''hidden''"
    and "visibility (heap (hideOverflowItems ctx props gff s) (children (heap s oc) ! k)) = ''hidden''"
    and "\<not> isItemOverflowing (boundingClientRect (heap s (children (heap s oc) ! k)))
             (boundingClientRect (heap s oc))"
  shows "wouldItemCollide ctx s (children (heap s oc) ! k)
           (boundingClientRect (heap s (children (heap s oc) ! k)))
           (boundingClientRect (heap s oi)) (boundingClientRect (heap s oc))
         \<and> (\<exists>j. k < j \<and> j < length (children (heap s oc)) \<and> children (heap s oc) ! j \<noteq> oi
                \<and> isItemOverflowing (boundingClientRect (heap s (children (heap s oc) ! j)))
                      (boundingClientRect (heap s oc)))
         \<and> (\<exists>m. lastVisibleItemIndex (hideOverflowItems ctx props gff s) = Some m \<and> m < int k)
         \<and> (\<forall>v el i p. lastVisibleItem v = Some p \<and> el \<noteq> oi
                \<and> \<not> isItemOverflowing (boundingClientRect (heap (st v) el)) (boundingClientRect (heap s oc))
              \<longrightarrow> iteratee ctx gff oi (boundingClientRect (heap s oc)) (boundingClientRect (heap s oi))
                      (el, i) v
                    = (visibility (heap (st v) el) = ''hidden'', v\<lparr>st := snd (show_el el (st v))\<rparr>))"
proof -
  let ?ys = "children (heap s oc)"
  let ?cr = "boundingClientRect (heap s oc)"
  let ?oir = "boundingClientRect (heap s oi)"
  let ?v0 = "\<lparr>isOverflowing = False, lastVisibleItem = None, st = scrolled ctx oc s\<rparr>"
  let ?L = "scanLoop ctx gff oi ?cr ?oir ?ys ?v0"
  have sc: "scanned ctx gff s = ?L" using assms(1,2) by (simp add: scanned_def)
  have rect: "\<And>a. boundingClientRect (heap (scrolled ctx oc s) a) = boundingClientRect (heap s a)"
    using scrolled_geometry [of ctx oc s] by (simp add: geometry_def)
  have main: "wouldItemCollide ctx (st ?v0) (?ys ! k) (boundingClientRect (heap (st ?v0) (?ys ! k))) ?oir ?cr
         \<and> lastVisibleItem ?v0 = None
         \<and> (isOverflowing ?v0
              \<or> (\<exists>j. k < j \<and> j < length ?ys \<and> ?ys ! j \<noteq> oi
                     \<and> isItemOverflowing (boundingClientRect (heap (st ?v0) (?ys ! j))) ?cr))
         \<and> isOverflowing ?L
         \<and> (\<forall>p. lastVisibleItem ?L = Some p
                \<longrightarrow> (\<exists>m<k. lastVisibleItemIndex (st ?L) = Some (int m)))"
  proof (rule scanLoop_collision_cause [OF assms(4,5,6)])
    show "visibility (heap (st ?v0) (?ys ! k)) \<noteq> ''hidden''"
      using assms(7) by (simp add: scrolled_visibility)
    show "visibility (heap (st ?L) (?ys ! k)) = ''hidden''"
      using assms(8) pass_heap_other [OF assms(1-3,6), of ctx props gff] sc by simp
    show "\<not> isItemOverflowing (boundingClientRect (heap (st ?v0) (?ys ! k))) ?cr"
      using assms(9) by (simp add: rect)
  qed
  have a: "wouldItemCollide ctx s (?ys ! k) (boundingClientRect (heap s (?ys ! k))) ?oir ?cr"
    using main by (simp add: rect wouldItemCollide_scrolled)
  have b: "\<exists>j. k < j \<and> j < length ?ys \<and> ?ys ! j \<noteq> oi
                \<and> isItemOverflowing (boundingClientRect (heap s (?ys ! j))) ?cr"
    using main by (simp add: rect)
  have c: "\<exists>m. lastVisibleItemIndex (hideOverflowItems ctx props gff s) = Some m \<and> m < int k"
  proof (cases "lastVisibleItem ?L")
    case None
    then show ?thesis using main sc by (simp add: pass_index [OF assms(1-3)])
  next
    case (Some p)
    with main obtain m where "m < k" "lastVisibleItemIndex (st ?L) = Some (int m)" by blast
    with Some main sc show ?thesis by (simp add: pass_index [OF assms(1-3)])
  qed
  have d: "\<forall>v el i p. lastVisibleItem v = Some p \<and> el \<noteq> oi
                \<and> \<not> isItemOverflowing (boundingClientRect (heap (st v) el)) ?cr
              \<longrightarrow> iteratee ctx gff oi ?cr ?oir (el, i) v
                    = (visibility (heap (st v) el) = ''hidden'', v\<lparr>st := snd (show_el el (st v))\<rparr>)"
    by (auto simp add: iteratee_def Let_def show_el_def)
  from a b c d show ?thesis by blast
qed

theorem collision_only_before_last_visible_witness:
  "visibility (heap tight 2) \<noteq> ''hidden''
   \<and> visibility (heap (hideOverflowItems ltr three_items (\<lambda>_. None) tight) 2) = ''hidden''
   \<and> wouldItemCollide ltr tight 2 (boundingClientRect (heap tight 2))
        (boundingClientRect (heap tight 4)) (boundingClientRect (heap tight 0))
   \<and> (\<exists>m. lastVisibleItemIndex (hideOverflowItems ltr three_items (\<lambda>_. None) tight) = Some m \<and> m < 1)
   \<and> iteratee ltr (\<lambda>_. None) 4 (boundingClientRect (heap tight 0)) (boundingClientRect (heap tight 4))
        (1, 0) \<lparr>isOverflowing = True, lastVisibleItem = Some (2, boundingClientRect (heap tight 2)), st = tight\<rparr>
      = (False, \<lparr>isOverflowing = True, lastVisibleItem = Some (2, boundingClientRect (heap tight 2)), st = tight\<rparr>)"
proof -
  have kids: "children (heap tight 0) = [1, 2, 3, 4]"
    by (simp add: ex_simps tight_def)
  have before: "visibility (heap tight 2) \<noteq> ''hidden''"
    and fits: "\<not> isItemOverflowing (boundingClientRect (heap tight 2)) (boundingClientRect (heap tight 0))"
    and fits1: "\<not> isItemOverflowing (boundingClientRect (heap tight 1)) (boundingClientRect (heap tight 0))"
    and vis1: "visibility (heap tight 1) \<noteq> ''hidden''"
    by (simp_all add: ex_simps tight_def isItemOverflowing_def)
  have after: "visibility (heap (hideOverflowItems ltr three_items (\<lambda>_. None) tight) 2) = ''hidden''"
    by (simp add: pass_simps ex_simps tight_def)
  have refs: "overflowContainerRef tight = Some 0" "overflowItemRef tight = Some 4"
    "offsetMeasureRef tight = Some 5"
    by (simp_all add: ex_simps tight_def)
  have d: "distinct (children (heap tight 0))" by (simp add: kids)
  have k: "1 < length (children (heap tight 0))" "children (heap tight 0) ! 1 \<noteq> 4"
    by (simp_all add: kids)
  note inst = collision_only_before_last_visible [OF refs d k, of ltr three_items "\<lambda>_. None"]
  have all: "wouldItemCollide ltr tight 2 (boundingClientRect (heap tight 2))
        (boundingClientRect (heap tight 4)) (boundingClientRect (heap tight 0))
      \<and> (\<exists>m. lastVisibleItemIndex (hideOverflowItems ltr three_items (\<lambda>_. None) tight) = Some m \<and> m < 1)
      \<and> (\<forall>v el i p. lastVisibleItem v = Some p \<and> el \<noteq> 4
                \<and> \<not> isItemOverflowing (boundingClientRect (heap (st v) el)) (boundingClientRect (heap tight 0))
              \<longrightarrow> iteratee ltr (\<lambda>_. None) 4 (boundingClientRect (heap tight 0)) (boundingClientRect (heap tight 4))
                      (el, i) v
                    = (visibility (heap (st v) el) = ''hidden'', v\<lparr>st := snd (show_el el (st v))\<rparr>))"
    using inst before after fits by (simp add: kids)
  let ?v = "\<lparr>isOverflowing = True, lastVisibleItem = Some (2, boundingClientRect (heap tight 2)), st = tight\<rparr>"
  from all have "iteratee ltr (\<lambda>_. None) 4 (boundingClientRect (heap tight 0)) (boundingClientRect (heap tight 4))
                      (1, 0) ?v
                    = (visibility (heap (st ?v) 1) = ''hidden'', ?v\<lparr>st := snd (show_el 1 (st ?v))\<rparr>)"
    using fits1 by (elim conjE allE [of _ ?v] allE [of _ "1::nat"] allE [of _ "0::nat"] allE [of _ "(2, boundingClientRect (heap tight 2))"]) simp
  then have step: "iteratee ltr (\<lambda>_. None) 4 (boundingClientRect (heap tight 0)) (boundingClientRect (heap tight 4))
                      (1, 0) ?v = (False, ?v)"
    using vis1 by (simp add: show_el_visible)
  from all step before after show ?thesis by simp
qed

text \<open>
  The claim as stated fails in two ways. An item before the last visible one is still
  tested for cropping and hidden when cropped (first state); and the scan ends at the
  first item that was already visible, so a hidden item before it is not shown although it
  fits (second state).
\<close>

theorem collision_scan_counterexample:
  "lastVisibleItemIndex (hideOverflowItems ltr two_items (\<lambda>_. None) reflowed) = Some 1
   \<and> visibility (heap (hideOverflowItems ltr two_items (\<lambda>_. None) reflowed) 1) = ''hidden''
   \<and> lastVisibleItemIndex (hideOverflowItems ltr two_items (\<lambda>_. None) stale) = Some 1
   \<and> \<not> isItemOverflowing (boundingClientRect (heap stale 1)) (boundingClientRect (heap stale 0))
   \<and> visibility (heap (hideOverflowItems ltr two_items (\<lambda>_. None) stale) 1) = ''hidden''"
  by (simp add: pass_simps ex_simps reflowed_def stale_def two_items_def)

text \<open>
  C5, as amended: when every item that follows a cropped item in document order is itself
  cropped, a second layout pass on the state the first pass left (same rectangles, same
  margins) changes no element, hence neither the visible items nor the position of the
  overflow item, and leaves the last visible index and the focused element as they were.
\<close>

theorem second_pass_changes_nothing:
  assumes "overflowContainerRef s = Some oc" "overflowItemRef s = Some oi" "offsetMeasureRef s = Some om"
    and "distinct (children (heap s oc))"
    and "\<forall>i j. i < j \<and> j < length (children (heap s oc))
             \<and> children (heap s oc) ! i \<noteq> oi \<and> children (heap s oc) ! j \<noteq> oi
             \<and> isItemOverflowing (boundingClientRect (heap s (children (heap s oc) ! i)))
                   (boundingClientRect (heap s oc))
           \<longrightarrow> isItemOverflowing (boundingClientRect (heap s (children (heap s oc) ! j)))
                 (boundingClientRect (heap s oc))"
  shows "heap (hideOverflowItems ctx props gff (hideOverflowItems ctx props gff s))
           = heap (hideOverflowItems ctx props gff s)
         \<and> lastVisibleItemIndex (hideOverflowItems ctx props gff (hideOverflowItems ctx props gff s))
           = lastVisibleItemIndex (hideOverflowItems ctx props gff s)
         \<and> activeElement (hideOverflowItems ctx props gff (hideOverflowItems ctx props gff s))
           = activeElement (hideOverflowItems ctx props gff s)"
proof -
  let ?s' = "hideOverflowItems ctx props gff s"
  let ?ys = "children (heap s oc)"
  let ?cr = "boundingClientRect (heap s oc)"
  let ?oir = "boundingClientRect (heap s oi)"
  let ?off = "measuredOffset ctx ?cr (boundingClientRect (heap s om))"
  let ?vini = "\<lparr>isOverflowing = False, lastVisibleItem = None, st = scrolled ctx oc s\<rparr>"
  let ?wini = "\<lparr>isOverflowing = False, lastVisibleItem = None, st = ?s'\<rparr>"
  let ?v = "scanned ctx gff s"
  let ?w = "scanned ctx gff ?s'"
  have refs': "overflowContainerRef ?s' = Some oc" "overflowItemRef ?s' = Some oi"
    "offsetMeasureRef ?s' = Some om"
    using assms(1-3) by (simp_all add: pass_props [OF assms(1-3)])
  have geo: "\<And>a. geometry (heap ?s' a) = geometry (heap s a)"
    by (rule pass_props(1) [OF assms(1-3)])
  then have rect: "\<And>a. boundingClientRect (heap ?s' a) = boundingClientRect (heap s a)"
    and kids: "\<And>a. children (heap ?s' a) = children (heap s a)"
    by (simp_all add: geometry_def)
  have scr: "scrolled ctx oc ?s' = ?s'"
    by (rule scrolled_twice) (rule pass_props(2) [OF assms(1-3)])
  have v: "?v = scanLoop ctx gff oi ?cr ?oir ?ys ?vini"
    using assms(1,2) by (simp add: scanned_def)
  have w: "?w = scanLoop ctx gff oi ?cr ?oir ?ys ?wini"
    using refs' by (simp add: scanned_def rect kids scr)
  have rerun: "heap (st ?w) = heap ?s'
         \<and> activeElement (st ?w) = activeElement ?s'
         \<and> isOverflowing ?w = isOverflowing ?v
         \<and> lastVisibleItem ?w = lastVisibleItem ?v
         \<and> (lastVisibleItem ?v \<noteq> None
              \<longrightarrow> lastVisibleItemIndex (st ?w) = lastVisibleItemIndex (st ?v))"
  proof -
    have "heap (st (scanLoop ctx gff oi ?cr ?oir ?ys ?wini)) = heap (st ?wini)
         \<and> activeElement (st (scanLoop ctx gff oi ?cr ?oir ?ys ?wini)) = activeElement (st ?wini)
         \<and> isOverflowing (scanLoop ctx gff oi ?cr ?oir ?ys ?wini)
              = isOverflowing (scanLoop ctx gff oi ?cr ?oir ?ys ?vini)
         \<and> lastVisibleItem (scanLoop ctx gff oi ?cr ?oir ?ys ?wini)
              = lastVisibleItem (scanLoop ctx gff oi ?cr ?oir ?ys ?vini)
         \<and> (lastVisibleItem ?vini = None \<and> lastVisibleItem (scanLoop ctx gff oi ?cr ?oir ?ys ?vini) \<noteq> None
              \<longrightarrow> lastVisibleItemIndex (st (scanLoop ctx gff oi ?cr ?oir ?ys ?wini))
                    = lastVisibleItemIndex (st (scanLoop ctx gff oi ?cr ?oir ?ys ?vini)))"
    proof (rule scanLoop_rerun [OF assms(4)])
      show "isOverflowing ?wini = isOverflowing ?vini" "lastVisibleItem ?wini = lastVisibleItem ?vini"
        by simp_all
      show "geometry (heap (st ?wini) a) = geometry (heap (st ?vini) a)" for a
        by (simp add: geo scrolled_geometry)
      show "visibility (heap (st ?wini) x) = visibility (heap (st (scanLoop ctx gff oi ?cr ?oir ?ys ?vini)) x)"
        if "x \<in> set ?ys" "x \<noteq> oi" for x
        using pass_heap_other [OF assms(1-3) that(2), of ctx props gff] v by simp
      show "isItemOverflowing (boundingClientRect (heap (st ?vini) (?ys ! j))) ?cr"
        if "i < j" "j < length ?ys" "?ys ! i \<noteq> oi" "?ys ! j \<noteq> oi"
          "isItemOverflowing (boundingClientRect (heap (st ?vini) (?ys ! i))) ?cr" for i j
      proof -
        have r0: "\<And>a. boundingClientRect (heap (scrolled ctx oc s) a) = boundingClientRect (heap s a)"
          using scrolled_geometry [of ctx oc s] by (simp add: geometry_def)
        from that assms(5) show ?thesis by (simp add: r0)
      qed
    qed
    then show ?thesis by (simp add: v w)
  qed
  have s': "?s' = invokeOnOverflow props
       (if isOverflowing ?v \<or> overflowOpen props
        then place ctx oi (lastVisibleItem ?v) ?cr ?off (st ?v)
        else hide gff oi ((st ?v)\<lparr>lastVisibleItemIndex := Some (int (length (items props)) - 1)\<rparr>))"
    by (simp add: hideOverflowItems_unfold [OF assms(1-3)] place_def)
  have s'': "hideOverflowItems ctx props gff ?s' = invokeOnOverflow props
       (if isOverflowing ?v \<or> overflowOpen props
        then place ctx oi (lastVisibleItem ?v) ?cr ?off (st ?w)
        else hide gff oi ((st ?w)\<lparr>lastVisibleItemIndex := Some (int (length (items props)) - 1)\<rparr>))"
    using rerun by (simp add: hideOverflowItems_unfold [OF refs'] place_def rect)
  show ?thesis
  proof (cases "isOverflowing ?v \<or> overflowOpen props")
    case True
    have h1: "heap ?s' = heap (place ctx oi (lastVisibleItem ?v) ?cr ?off (st ?v))"
      using True by (subst s') (simp add: invokeOnOverflow_frame)
    have "heap (st ?w) = heap (place ctx oi (lastVisibleItem ?v) ?cr ?off (st ?v))"
      using rerun h1 by simp
    then have "heap (place ctx oi (lastVisibleItem ?v) ?cr ?off (st ?w))
        = heap (place ctx oi (lastVisibleItem ?v) ?cr ?off (st ?v))"
      by (rule place_heap_idem)
    then have a: "heap (hideOverflowItems ctx props gff ?s') = heap ?s'"
      using True h1 by (subst s'') (simp add: invokeOnOverflow_frame)
    have b: "activeElement (hideOverflowItems ctx props gff ?s') = activeElement ?s'"
      using True rerun by (subst s'') (simp add: invokeOnOverflow_frame place_activeElement)
    have c: "lastVisibleItemIndex (hideOverflowItems ctx props gff ?s') = lastVisibleItemIndex ?s'"
      using True rerun
      by (simp add: pass_index [OF refs'] pass_index [OF assms(1-3)] split: option.splits)
    from a b c show ?thesis by simp
  next
    case False
    have hid: "visibility (heap ?s' oi) = ''hidden''"
      using False by (subst s') (simp add: invokeOnOverflow_frame hide_visibility)
    let ?t = "(st ?w)\<lparr>lastVisibleItemIndex := Some (int (length (items props)) - 1)\<rparr>"
    have "visibility (heap ?t oi) = ''hidden''" using hid rerun by simp
    then have "hide gff oi ?t = ?t" by (rule hide_hidden)
    then have eq: "hideOverflowItems ctx props gff ?s' = invokeOnOverflow props ?t"
      using False by (subst s'') simp
    have a: "heap (hideOverflowItems ctx props gff ?s') = heap ?s'"
      using rerun by (simp add: eq invokeOnOverflow_frame)
    have b: "activeElement (hideOverflowItems ctx props gff ?s') = activeElement ?s'"
      using rerun by (simp add: eq invokeOnOverflow_frame)
    have c: "lastVisibleItemIndex (hideOverflowItems ctx props gff ?s') = lastVisibleItemIndex ?s'"
      using False rerun
      by (simp add: pass_index [OF refs'] pass_index [OF assms(1-3)])
    from a b c show ?thesis by simp
  qed
qed

theorem second_pass_changes_nothing_witness:
  "heap (hideOverflowItems ltr three_items (\<lambda>_. None) (hideOverflowItems ltr three_items (\<lambda>_. None) crowded))
     = heap (hideOverflowItems ltr three_items (\<lambda>_. None) crowded)
   \<and> lastVisibleItemIndex (hideOverflowItems ltr three_items (\<lambda>_. None)
        (hideOverflowItems ltr three_items (\<lambda>_. None) crowded)) = Some 0
   \<and> activeElement (hideOverflowItems ltr three_items (\<lambda>_. None)
        (hideOverflowItems ltr three_items (\<lambda>_. None) crowded)) = None"
proof -
  have kids: "children (heap crowded 0) = [1, 2, 3, 4]"
    by (simp add: ex_simps crowded_def)
  have refs: "overflowContainerRef crowded = Some 0" "overflowItemRef crowded = Some 4"
    "offsetMeasureRef crowded = Some 5"
    by (simp_all add: ex_simps crowded_def)
  have d: "distinct (children (heap crowded 0))" by (simp add: kids)
  have mono: "\<forall>i j. i < j \<and> j < length (children (heap crowded 0))
             \<and> children (heap crowded 0) ! i \<noteq> 4 \<and> children (heap crowded 0) ! j \<noteq> 4
             \<and> isItemOverflowing (boundingClientRect (heap crowded (children (heap crowded 0) ! i)))
                   (boundingClientRect (heap crowded 0))
           \<longrightarrow> isItemOverflowing (boundingClientRect (heap crowded (children (heap crowded 0) ! j)))
                 (boundingClientRect (heap crowded 0))"
    unfolding kids
    by (auto simp add: ex_simps crowded_def isItemOverflowing_def nth_Cons' split: if_splits)
  have once: "lastVisibleItemIndex (hideOverflowItems ltr three_items (\<lambda>_. None) crowded) = Some 0"
    "activeElement (hideOverflowItems ltr three_items (\<lambda>_. None) crowded) = None"
    by (simp_all add: pass_simps ex_simps crowded_def)
  from second_pass_changes_nothing [OF refs d mono, of ltr three_items "\<lambda>_. None"] once
  show ?thesis by simp
qed

text \<open>
  The claim as stated fails when a cropped item precedes an item that fits and is still
  hidden: the first pass goes on beyond the last visible item, finds the cropped item and
  shows the overflow item; the second pass stops at the last visible item, finds no
  overflow and hides the overflow item. In a toolbar built from children the two passes
  also record different last visible indices.
\<close>

theorem second_pass_counterexample:
  "visibility (heap (hideOverflowItems ltr two_items (\<lambda>_. None) reflowed) 3) \<noteq> ''hidden''
   \<and> visibility (heap (hideOverflowItems ltr two_items (\<lambda>_. None)
         (hideOverflowItems ltr two_items (\<lambda>_. None) reflowed)) 3) = ''hidden''
   \<and> lastVisibleItemIndex (hideOverflowItems ltr children_only (\<lambda>_. None) reflowed) = Some 1
   \<and> lastVisibleItemIndex (hideOverflowItems ltr children_only (\<lambda>_. None)
         (hideOverflowItems ltr children_only (\<lambda>_. None) reflowed)) = Some (- 1)"
  by (simp add: pass_simps ex_simps reflowed_def two_items_def children_only_def)

text \<open>
  C6: a layout pass that finds its three element references set ends with one call of the
  \<^verbatim>\<open>onOverflow\<close> handler, when the caller passed one, with the last visible index plus
  one, whether or not anything overflowed; and when the scan found no overflow and the
  overflow menu is not forced open, the overflow item is hidden and the last visible index
  is the number of items minus one.
\<close>

theorem onOverflow_always:
  assumes "overflowContainerRef s = Some oc" "overflowItemRef s = Some oi" "offsetMeasureRef s = Some om"
  shows "(onOverflow props \<longrightarrow>
            (\<exists>n. lastVisibleItemIndex (hideOverflowItems ctx props gff s) = Some n
                 \<and> onOverflowCalls (hideOverflowItems ctx props gff s) = onOverflowCalls s @ [Some (n + 1)]))
         \<and> (\<not> isOverflowing (scanned ctx gff s) \<and> \<not> overflowOpen props \<longrightarrow>
              visibility (heap (hideOverflowItems ctx props gff s) oi) = ''hidden''
              \<and> lastVisibleItemIndex (hideOverflowItems ctx props gff s)
                    = Some (int (length (items props)) - 1))"
proof -
  obtain n where n: "lastVisibleItemIndex (hideOverflowItems ctx props gff s) = Some n"
    using pass_index [OF assms, of ctx props gff] scanned_index [OF assms(1,2), of ctx gff]
    by (auto split: option.splits if_splits)
  have calls: "onOverflow props \<Longrightarrow>
      onOverflowCalls (hideOverflowItems ctx props gff s) = onOverflowCalls s @ [Some (n + 1)]"
  proof -
    assume h: "onOverflow props"
    have "onOverflowCalls (hideOverflowItems ctx props gff s)
        = onOverflowCalls s @ [map_option (\<lambda>i. i + 1) (lastVisibleItemIndex (hideOverflowItems ctx props gff s))]"
      using h
      by (simp add: hideOverflowItems_unfold [OF assms] invokeOnOverflow_def show_el_frame
          setOverflowPosition_frame hide_frame update_el_def scanned_frame [OF assms(1,2)])
    with n show ?thesis by simp
  qed
  have quiet: "\<not> isOverflowing (scanned ctx gff s) \<and> \<not> overflowOpen props \<Longrightarrow>
      visibility (heap (hideOverflowItems ctx props gff s) oi) = ''hidden''"
    by (simp add: hideOverflowItems_unfold [OF assms] invokeOnOverflow_def hide_visibility)
  show ?thesis
    using n calls quiet pass_index [OF assms, of ctx props gff] by auto
qed

theorem onOverflow_always_witness:
  "\<not> isOverflowing (scanned ltr (\<lambda>_. None) roomy)
   \<and> onOverflowCalls (hideOverflowItems ltr three_items (\<lambda>_. None) roomy) = [Some 3]
   \<and> visibility (heap (hideOverflowItems ltr three_items (\<lambda>_. None) roomy) 4) = ''hidden''
   \<and> lastVisibleItemIndex (hideOverflowItems ltr three_items (\<lambda>_. None) roomy) = Some 2"
proof -
  have quiet: "\<not> isOverflowing (scanned ltr (\<lambda>_. None) roomy)"
    by (simp add: scanned_def scanLoop_def scrolled_def pass_simps ex_simps roomy_def)
  have refs: "overflowContainerRef roomy = Some 0" "overflowItemRef roomy = Some 4"
    "offsetMeasureRef roomy = Some 5"
    by (simp_all add: ex_simps roomy_def)
  from onOverflow_always [OF refs, of three_items ltr "\<lambda>_. None"] quiet
  show ?thesis by (auto simp add: ex_simps roomy_def)
qed

text \<open>
  C7: if one of the three element references (overflow container, overflow item, offset
  probe) is unset when a layout pass starts, the pass returns the state it was given: no
  visibility change, no scroll reset, no repositioning, no call of \<^verbatim>\<open>onOverflow\<close>, and
  no exception.
\<close>

theorem missing_ref_noop:
  assumes "overflowContainerRef s = None \<or> overflowItemRef s = None \<or> offsetMeasureRef s = None"
  shows "hideOverflowItems ctx props gff s = s"
  using assms by (auto simp add: hideOverflowItems_def split: option.splits)

theorem missing_ref_noop_witness:
  "hideOverflowItems ltr three_items (\<lambda>_. None) (scenario\<lparr>overflowItemRef := None\<rparr>)
     = scenario\<lparr>overflowItemRef := None\<rparr>"
  using missing_ref_noop [of "scenario\<lparr>overflowItemRef := None\<rparr>" ltr three_items "\<lambda>_. None"]
  by simp

text \<open>
  C8, as amended: for an item that is not hidden, and whose focusability marker is either
  a non-empty string or absent together with the shadow marker, \<open>hide\<close> followed by
  \<open>show\<close> restores the focusability marker exactly and leaves no shadow marker.
\<close>

theorem hide_show_restores_marker:
  assumes "visibility (heap s el) \<noteq> ''hidden''"
    and "(\<exists>w. getAttribute (heap s el) IS_FOCUSABLE_ATTRIBUTE = Some w \<and> w \<noteq> [])
         \<or> (getAttribute (heap s el) IS_FOCUSABLE_ATTRIBUTE = None
             \<and> getAttribute (heap s el) WAS_FOCUSABLE_ATTRIBUTE = None)"
  shows "getAttribute (heap (snd (show_el el (hide gff el s))) el) IS_FOCUSABLE_ATTRIBUTE
           = getAttribute (heap s el) IS_FOCUSABLE_ATTRIBUTE
         \<and> getAttribute (heap (snd (show_el el (hide gff el s))) el) WAS_FOCUSABLE_ATTRIBUTE = None"
  using assms attr_names_distinct
  by (auto simp add: hide_def show_el_def update_el_def focus_def Let_def getAttribute_def
      setAttribute_def removeAttribute_def split: option.splits)

theorem hide_show_restores_marker_witness:
  "getAttribute (heap (snd (show_el 1 (hide (\<lambda>_. None) 1
        (with_el 1 ((box 0 100)\<lparr>attributes := [IS_FOCUSABLE_ATTRIBUTE \<mapsto> ''true'']\<rparr>) scenario)))) 1)
      IS_FOCUSABLE_ATTRIBUTE = Some ''true''
   \<and> getAttribute (heap (snd (show_el 1 (hide (\<lambda>_. None) 1
        (with_el 1 ((box 0 100)\<lparr>attributes := [IS_FOCUSABLE_ATTRIBUTE \<mapsto> ''true'']\<rparr>) scenario)))) 1)
      WAS_FOCUSABLE_ATTRIBUTE = None
   \<and> getAttribute (heap (snd (show_el 2 (hide (\<lambda>_. None) 2 scenario))) 2) IS_FOCUSABLE_ATTRIBUTE = None"
  using hide_show_restores_marker
      [of "with_el 1 ((box 0 100)\<lparr>attributes := [IS_FOCUSABLE_ATTRIBUTE \<mapsto> ''true'']\<rparr>) scenario" 1
          "\<lambda>_. None"]
    hide_show_restores_marker [of scenario 2 "\<lambda>_. None"]
  by (simp add: ex_simps getAttribute_def IS_FOCUSABLE_ATTRIBUTE_def WAS_FOCUSABLE_ATTRIBUTE_def)

text \<open>
  The claim as stated fails on three items: one that is already hidden (\<open>hide\<close> returns at
  once, \<open>show\<close> then replaces the marker \<^verbatim>\<open>false\<close> by the shadow marker), one whose marker
  is the empty string (it ends without marker), and one without marker that carries a
  shadow marker (it ends with the shadow marker's value).
\<close>

theorem hide_show_marker_counterexample:
  "getAttribute (heap (snd (show_el 1 (hide (\<lambda>_. None) 1
          (with_el 1 (hidden_item (box 0 100)) scenario)))) 1) IS_FOCUSABLE_ATTRIBUTE
     \<noteq> getAttribute (heap (with_el 1 (hidden_item (box 0 100)) scenario) 1) IS_FOCUSABLE_ATTRIBUTE
   \<and> getAttribute (heap (snd (show_el 1 (hide (\<lambda>_. None) 1
          (with_el 1 ((box 0 100)\<lparr>attributes := [IS_FOCUSABLE_ATTRIBUTE \<mapsto> []]\<rparr>) scenario)))) 1)
       IS_FOCUSABLE_ATTRIBUTE
     \<noteq> getAttribute
         (heap (with_el 1 ((box 0 100)\<lparr>attributes := [IS_FOCUSABLE_ATTRIBUTE \<mapsto> []]\<rparr>) scenario) 1)
         IS_FOCUSABLE_ATTRIBUTE
   \<and> getAttribute (heap (snd (show_el 1 (hide (\<lambda>_. None) 1
          (with_el 1 ((box 0 100)\<lparr>attributes := [WAS_FOCUSABLE_ATTRIBUTE \<mapsto> ''true'']\<rparr>) scenario)))) 1)
       IS_FOCUSABLE_ATTRIBUTE
     \<noteq> getAttribute
         (heap (with_el 1 ((box 0 100)\<lparr>attributes := [WAS_FOCUSABLE_ATTRIBUTE \<mapsto> ''true'']\<rparr>) scenario) 1)
         IS_FOCUSABLE_ATTRIBUTE"
  by (simp add: pass_simps ex_simps)

text \<open>
  C9, as amended: when \<open>hide\<close> is applied to an item that is not yet hidden and holds or
  contains the focus, and the container reference is set and the lookup of the first
  focusable element finds an element, focus is moved to that element and the item is
  hidden. When the element found is neither the item nor inside it, the element and every
  element that contains it keep their visibility, so the element found is as visible after
  the operation as it was before.
\<close>

theorem hide_moves_focus:
  assumes "visibility (heap s el) \<noteq> ''hidden''"
    and "activeElement s = Some el \<or> contains s el (activeElement s)"
    and "containerRef s = Some c"
    and "gff s = Some f"
  shows "activeElement (hide gff el s) = Some f
         \<and> visibility (heap (hide gff el s) el) = ''hidden''
         \<and> (\<not> contains s el (Some f)
              \<longrightarrow> (\<forall>a. contains s a (Some f)
                      \<longrightarrow> visibility (heap (hide gff el s) a) = visibility (heap s a)))"
proof -
  have "activeElement (hide gff el s) = Some f"
    using assms
    by (auto simp add: hide_def update_el_def focus_def Let_def split: option.splits)
  moreover have "visibility (heap (hide gff el s) a) = visibility (heap s a)"
    if "\<not> contains s el (Some f)" "contains s a (Some f)" for a
  proof -
    from that have "a \<noteq> el" by auto
    then show ?thesis by (simp add: hide_heap_other)
  qed
  ultimately show ?thesis by (simp add: hide_visibility)
qed

theorem hide_moves_focus_witness:
  "contains nested 3 (activeElement nested)
   \<and> \<not> contains nested 3 (Some 1)
   \<and> activeElement (hide (\<lambda>_. Some 1) 3 nested) = Some 1
   \<and> visibility (heap (hide (\<lambda>_. Some 1) 3 nested) 3) = ''hidden''
   \<and> visibility (heap (hide (\<lambda>_. Some 1) 3 nested) 1) \<noteq> ''hidden''
   \<and> visibility (heap (hide (\<lambda>_. Some 1) 3 nested) 0) \<noteq> ''hidden''"
proof -
  have pre: "visibility (heap nested 3) \<noteq> ''hidden''"
    "contains nested 3 (activeElement nested)" "containerRef nested = Some 6"
    "\<not> contains nested 3 (Some 1)"
    "contains nested 1 (Some 1)" "contains nested 0 (Some 1)"
    "visibility (heap nested 1) \<noteq> ''hidden''" "visibility (heap nested 0) \<noteq> ''hidden''"
    by (simp_all add: nested_def ex_simps contains_def)
  have "activeElement (hide (\<lambda>_. Some 1) 3 nested) = Some 1
         \<and> visibility (heap (hide (\<lambda>_. Some 1) 3 nested) 3) = ''hidden''
         \<and> (\<forall>a. contains nested a (Some 1)
               \<longrightarrow> visibility (heap (hide (\<lambda>_. Some 1) 3 nested) a) = visibility (heap nested a))"
    using hide_moves_focus [of nested 3 6 "\<lambda>_. Some 1" 1] pre by simp
  with pre show ?thesis by simp
qed

text \<open>
  The claim as stated fails when the focused item is itself the first focusable element
  of the container, when the lookup finds nothing, and when the lookup finds an element
  inside the item: the item is hidden and the focus stays on it or inside it.
\<close>

theorem hide_focus_counterexample:
  "activeElement (scenario\<lparr>activeElement := Some 1\<rparr>) = Some 1
   \<and> visibility (heap (scenario\<lparr>activeElement := Some 1\<rparr>) 1) \<noteq> ''hidden''
   \<and> activeElement (hide (\<lambda>_. Some 1) 1 (scenario\<lparr>activeElement := Some 1\<rparr>)) = Some 1
   \<and> visibility (heap (hide (\<lambda>_. Some 1) 1 (scenario\<lparr>activeElement := Some 1\<rparr>)) 1) = ''hidden''
   \<and> activeElement (hide (\<lambda>_. None) 1 (scenario\<lparr>activeElement := Some 1\<rparr>)) = Some 1
   \<and> visibility (heap (hide (\<lambda>_. None) 1 (scenario\<lparr>activeElement := Some 1\<rparr>)) 1) = ''hidden''
   \<and> activeElement (hide (\<lambda>_. Some 7) 3 nested) = Some 7
   \<and> contains (hide (\<lambda>_. Some 7) 3 nested) 3 (Some 7)
   \<and> visibility (heap (hide (\<lambda>_. Some 7) 3 nested) 3) = ''hidden''"
  by (simp add: pass_simps ex_simps nested_def)

subsection \<open>When the popup behavior returns\<close>

text \<open>
  \<^verbatim>\<open>popupBehavior\<close> returns unless a tabbable trigger is given whose \<^verbatim>\<open>props\<close> are
  absent, and whenever it returns the attributes are those the specification names.
\<close>

lemma popupBehavior_returns_iff:
  "(\<exists>b. popupBehavior production ps = Inr b)
     \<longleftrightarrow> \<not> (tabbableTrigger ps = Some True \<and> (\<exists>t. trigger ps = Some t \<and> el_props t = None))"
  by (auto simp add: popupBehavior_def getAriaAttributeFromProps_def truthy_bool_def Let_def
      split: option.splits sum.splits)

lemma popupBehavior_attributes:
  assumes "popupBehavior production ps = Inr b"
  shows "role (attributes_popup b)
           = (if truthy_trapFocus (trapFocus ps) then ''dialog'' else ''complementary'')"
    and "aria_modal (attributes_popup b)
           = (if truthy_trapFocus (trapFocus ps) then Some True else None)"
    and "aria_disabled (attributes_trigger b) = disabled ps"
  using assms
  by (auto simp add: popupBehavior_def Let_def split: option.splits sum.splits if_splits)

text \<open>
  C10: for every props record the popup behavior returns popup attributes with role
  \<^verbatim>\<open>dialog\<close> and \<^verbatim>\<open>aria-modal\<close> when focus trapping is requested, role
  \<^verbatim>\<open>complementary\<close> otherwise, and \<^verbatim>\<open>aria-disabled\<close> on a disabled trigger. The code
  does not return on every props record: for a tabbable trigger without \<^verbatim>\<open>props\<close>,
  \<^verbatim>\<open>getAriaAttributeFromProps\<close> reads a property of \<^verbatim>\<open>undefined\<close>.
\<close>

theorem popupBehavior_throws: "popupBehavior production no_trigger_props = Inl TypeError"
  by (simp add: popupBehavior_def no_trigger_props_def getAriaAttributeFromProps_def truthy_bool_def)

end
